theory Spec2Isabelle
  imports Complex_Main "HOL-Library.Word" "HOL-Library.Sublist"
begin

unbundle bit_operations_syntax

section \<open>Common values\<close>

text \<open>
  The server is JavaScript. A \<open>Buffer\<close> is a list of bytes, a JavaScript number is a
  rational (or a real where a square root or a sine is taken), a string is a character
  list. A \<open>RangeError\<close> raised by a \<open>Buffer\<close> method is the value \<open>Inl RangeError\<close>.
  A reading of the wall clock (\<open>Date.now()\<close>) is an argument \<open>now\<close> of the method that
  reads it; the session takes its readings from a clock it carries. Console output is
  not part of the model.
\<close>

type_synonym byte = "8 word"
type_synonym Buffer = "byte list"

datatype error = RangeError | TypeError

text \<open>
  \<open>buf.readInt16LE(offset)\<close>: the two bytes at \<open>offset\<close>, little-endian, as a signed
  16-bit value; a \<open>RangeError\<close> when they are not both inside the buffer. Every offset the
  server computes is a whole number.
\<close>

definition readInt16LE :: "Buffer \<Rightarrow> int \<Rightarrow> error + int" where
  "readInt16LE buf offset =
     (if 0 \<le> offset \<and> offset + 2 \<le> int (length buf)
      then Inr (sint (word_cat (buf ! nat (offset + 1)) (buf ! nat offset) :: 16 word))
      else Inl RangeError)"

text \<open>
  \<open>buf.writeInt16LE(value, offset)\<close>: a \<open>RangeError\<close> when the value is not a signed 16-bit
  value or the two bytes are not inside the buffer.
\<close>

definition writeInt16LE :: "Buffer \<Rightarrow> int \<Rightarrow> int \<Rightarrow> error + Buffer" where
  "writeInt16LE buf v offset =
     (if v < - 32768 \<or> 32767 < v then Inl RangeError
      else if 0 \<le> offset \<and> offset + 2 \<le> int (length buf)
      then Inr (buf[nat offset := word_of_int v, nat (offset + 1) := word_of_int (v div 256)])
      else Inl RangeError)"

definition Buffer_alloc :: "nat \<Rightarrow> Buffer" where
  "Buffer_alloc n = replicate n 0"

text \<open>\<open>Math.round\<close> rounds a half towards plus infinity.\<close>

definition Math_round :: "rat \<Rightarrow> int" where
  "Math_round x = \<lfloor>x + 1 / 2\<rfloor>"

text \<open>
  The indices a loop \<open>for (let i = 0; i < bound; i++)\<close> visits, in order, for a bound that
  need not be a whole number.
\<close>

definition for_range :: "rat \<Rightarrow> nat list" where
  "for_range bound = [0 ..< nat \<lceil>bound\<rceil>]"

text \<open>\<open>str.substring(start, end)\<close>: both indices are clamped to the string and swapped when out of order.\<close>

definition substring :: "string \<Rightarrow> int \<Rightarrow> int \<Rightarrow> string" where
  "substring str start fin =
     (let n = int (length str);
          a = max 0 (min start n);
          b = max 0 (min fin n)
      in drop (nat (min a b)) (take (nat (max a b)) str))"

text \<open>\<open>str.split(sep)\<close> for a separator of one character.\<close>

fun split_on :: "char \<Rightarrow> string \<Rightarrow> string list" where
  "split_on sep [] = [[]]"
| "split_on sep (c # cs) =
     (if c = sep then [] # split_on sep cs
      else (case split_on sep cs of
              [] \<Rightarrow> [[c]]
            | w # ws \<Rightarrow> (c # w) # ws))"

text \<open>A value that may be \<open>undefined\<close>, and how a template literal prints it.\<close>

definition js_str :: "string option \<Rightarrow> string" where
  "js_str v = (case v of None \<Rightarrow> ''undefined'' | Some t \<Rightarrow> t)"


section \<open>state-machine.js\<close>

datatype SessionState = IDLE | LISTENING | PROCESSING | SPEAKING | INTERRUPTED

text \<open>The \<open>metadata\<close> objects the callers pass: \<open>{}\<close>, \<open>{ text }\<close>, \<open>{ timestamp }\<close>, \<open>{ reason }\<close>.\<close>

datatype metadata = NoMeta | MetaText "string option" | MetaTimestamp nat | MetaReason string

record transition_rec =
  t_from :: SessionState
  t_to :: SessionState
  t_timestamp :: nat
  t_metadata :: metadata

text \<open>
  A listener is a callback of the caller; the model names it by a number and records each
  call \<open>listener(transition)\<close> in \<open>notified\<close>.
\<close>

record StateMachine =
  sm_sessionId :: string
  state :: SessionState
  history :: "transition_rec list"
  listeners :: "nat list"
  notified :: "(nat \<times> transition_rec) list"

definition new_StateMachine :: "string \<Rightarrow> StateMachine" where
  "new_StateMachine sid =
     \<lparr>sm_sessionId = sid, state = IDLE, history = [], listeners = [], notified = []\<rparr>"

fun validTransitions :: "SessionState \<Rightarrow> SessionState list" where
  "validTransitions IDLE = [LISTENING]"
| "validTransitions LISTENING = [PROCESSING, IDLE]"
| "validTransitions PROCESSING = [SPEAKING, LISTENING, IDLE]"
| "validTransitions SPEAKING = [INTERRUPTED, LISTENING, IDLE]"
| "validTransitions INTERRUPTED = [LISTENING, IDLE]"

definition isValidTransition :: "SessionState \<Rightarrow> SessionState \<Rightarrow> bool" where
  "isValidTransition from_s to_s = List.member (validTransitions from_s) to_s"

definition transition ::
  "StateMachine \<Rightarrow> SessionState \<Rightarrow> metadata \<Rightarrow> nat \<Rightarrow> bool \<times> StateMachine" where
  "transition sm newState md now =
     (let oldState = state sm in
      if \<not> isValidTransition oldState newState then (False, sm)
      else
        let sm1 = sm\<lparr>state := newState\<rparr>;
            tr = \<lparr>t_from = oldState, t_to = newState, t_timestamp = now, t_metadata = md\<rparr>;
            sm2 = sm1\<lparr>history := history sm1 @ [tr]\<rparr>;
            sm3 = sm2\<lparr>notified := notified sm2 @ map (\<lambda>l. (l, tr)) (listeners sm2)\<rparr>
        in (True, sm3))"

definition is_state :: "StateMachine \<Rightarrow> SessionState \<Rightarrow> bool" where
  "is_state sm s = (state sm = s)"

definition sm_reset :: "StateMachine \<Rightarrow> nat \<Rightarrow> StateMachine" where
  "sm_reset sm now = snd (transition sm IDLE (MetaReason ''reset'') now)"

text \<open>
  The table of valid transitions as the specification prints it (section 4.5), row by row.
\<close>

definition spec_valid_transitions :: "(SessionState \<times> SessionState) list" where
  "spec_valid_transitions =
     [(IDLE, LISTENING),
      (LISTENING, PROCESSING), (LISTENING, IDLE),
      (PROCESSING, SPEAKING), (PROCESSING, LISTENING), (PROCESSING, IDLE),
      (SPEAKING, INTERRUPTED), (SPEAKING, LISTENING), (SPEAKING, IDLE),
      (INTERRUPTED, LISTENING), (INTERRUPTED, IDLE)]"

section \<open>audio-processor.js\<close>

text \<open>
  The only field that changes is the residual \<open>buffer\<close>; the others are the constants below.
  A method that raises leaves the object as it was: the caller keeps the old value.
\<close>

record AudioProcessor =
  buffer :: Buffer

definition new_AudioProcessor :: AudioProcessor where
  "new_AudioProcessor = \<lparr>buffer = Buffer_alloc 0\<rparr>"

definition targetSampleRate :: nat where
  "targetSampleRate = 16000"

definition frameDuration :: nat where
  "frameDuration = 20"

definition frameSize :: nat where
  "frameSize = (targetSampleRate * frameDuration) div 1000"

definition bytesPerFrame :: nat where
  "bytesPerFrame = frameSize * 2"

text \<open>
  The body of the loop of \<open>simpleResample\<close>, over the indices still to visit. The sample
  arithmetic is exact (rational) where JavaScript's is floating point.
\<close>

fun resample_loop :: "Buffer \<Rightarrow> nat \<Rightarrow> nat \<Rightarrow> nat list \<Rightarrow> Buffer \<Rightarrow> error + Buffer" where
  "resample_loop input inputRate outputRate [] output = Inr output"
| "resample_loop input inputRate outputRate (i # is) output =
     (let inputSamples = (of_nat (length input) :: rat) / 2;
          srcIndex = (of_nat i :: rat) * of_nat inputRate / of_nat outputRate;
          srcIndexFloor = \<lfloor>srcIndex\<rfloor>;
          srcIndexCeil = min (of_int srcIndexFloor + 1) (inputSamples - 1);
          fraction = srcIndex - of_int srcIndexFloor
      in case readInt16LE input (srcIndexFloor * 2) of
           Inl e \<Rightarrow> Inl e
         | Inr sample1 \<Rightarrow>
            (case readInt16LE input \<lfloor>srcIndexCeil * 2\<rfloor> of
               Inl e \<Rightarrow> Inl e
             | Inr sample2 \<Rightarrow>
                (let interpolated =
                       Math_round (of_int sample1 + (of_int sample2 - of_int sample1) * fraction)
                 in case writeInt16LE output interpolated (int i * 2) of
                      Inl e \<Rightarrow> Inl e
                    | Inr output' \<Rightarrow> resample_loop input inputRate outputRate is output')))"

text \<open>
  With an input rate of 0 the output length is \<open>Infinity\<close> or \<open>NaN\<close>, which \<open>Buffer.alloc\<close>
  refuses with a \<open>RangeError\<close>.
\<close>

definition simpleResample :: "Buffer \<Rightarrow> nat \<Rightarrow> nat \<Rightarrow> error + Buffer" where
  "simpleResample input inputRate outputRate =
     (if inputRate = 0 then Inl RangeError
      else
        let inputSamples = (of_nat (length input) :: rat) / 2;
            outputSamples = nat \<lfloor>inputSamples * of_nat outputRate / of_nat inputRate\<rfloor>;
            output = Buffer_alloc (outputSamples * 2)
        in resample_loop input inputRate outputRate (for_range (of_nat outputSamples)) output)"

text \<open>The inner loop of \<open>convertToMono\<close>: the sum over the channels of sample \<open>i\<close>.\<close>

fun mono_sum :: "Buffer \<Rightarrow> nat \<Rightarrow> nat \<Rightarrow> nat list \<Rightarrow> int \<Rightarrow> error + int" where
  "mono_sum input channels i [] sum_acc = Inr sum_acc"
| "mono_sum input channels i (ch # chs) sum_acc =
     (case readInt16LE input ((int i * int channels + int ch) * 2) of
        Inl e \<Rightarrow> Inl e
      | Inr v \<Rightarrow> mono_sum input channels i chs (sum_acc + v))"

fun mono_loop :: "Buffer \<Rightarrow> nat \<Rightarrow> nat list \<Rightarrow> Buffer \<Rightarrow> error + Buffer" where
  "mono_loop input channels [] output = Inr output"
| "mono_loop input channels (i # is) output =
     (case mono_sum input channels i (for_range (of_nat channels)) 0 of
        Inl e \<Rightarrow> Inl e
      | Inr sum_acc \<Rightarrow>
         (case writeInt16LE output (Math_round (of_int sum_acc / of_nat channels)) (int i * 2) of
            Inl e \<Rightarrow> Inl e
          | Inr output' \<Rightarrow> mono_loop input channels is output'))"

text \<open>\<open>Buffer.alloc\<close> drops the fraction of a size that is not a whole number.\<close>

definition convertToMono :: "Buffer \<Rightarrow> nat \<Rightarrow> error + Buffer" where
  "convertToMono input channels =
     (let sampleCount = (of_nat (length input) :: rat) / (2 * of_nat channels);
          output = Buffer_alloc (nat \<lfloor>sampleCount * 2\<rfloor>)
      in mono_loop input channels (for_range sampleCount) output)"

text \<open>The \<open>while\<close> loop of \<open>processAudioData\<close>: \<open>frames\<close> collected so far, \<open>buf\<close> is \<open>this.buffer\<close>.\<close>

function extract_frames :: "Buffer list \<Rightarrow> Buffer \<Rightarrow> Buffer list \<times> Buffer" where
  "extract_frames frames buf =
     (if bytesPerFrame \<le> length buf
      then extract_frames (frames @ [take bytesPerFrame buf]) (drop bytesPerFrame buf)
      else (frames, buf))"
  by pat_completeness auto
termination
  by (relation "measure (\<lambda>(frames, buf). length buf)")
     (auto simp: bytesPerFrame_def frameSize_def targetSampleRate_def frameDuration_def)

declare extract_frames.simps [simp del]

text \<open>What \<open>processAudioData\<close> appends to the residual: the block resampled and mixed down.\<close>

definition processedData :: "Buffer \<Rightarrow> nat \<Rightarrow> nat \<Rightarrow> error + Buffer" where
  "processedData audioData sourceSampleRate sourceChannels =
     (case (if sourceSampleRate \<noteq> targetSampleRate
            then simpleResample audioData sourceSampleRate targetSampleRate
            else Inr audioData) of
        Inl e \<Rightarrow> Inl e
      | Inr resampled \<Rightarrow>
          if 1 < sourceChannels then convertToMono resampled sourceChannels
          else Inr resampled)"

definition processAudioData ::
  "AudioProcessor \<Rightarrow> Buffer \<Rightarrow> nat \<Rightarrow> nat \<Rightarrow> error + (Buffer list \<times> AudioProcessor)" where
  "processAudioData ap audioData sourceSampleRate sourceChannels =
     (case processedData audioData sourceSampleRate sourceChannels of
        Inl e \<Rightarrow> Inl e
      | Inr processed \<Rightarrow>
          (let (frames, rest) = extract_frames [] (buffer ap @ processed)
           in Inr (frames, ap\<lparr>buffer := rest\<rparr>)))"

definition clearBuffer :: "AudioProcessor \<Rightarrow> AudioProcessor" where
  "clearBuffer ap = ap\<lparr>buffer := Buffer_alloc 0\<rparr>"

section \<open>performance-logger.js\<close>

text \<open>The \<open>data\<close> objects the callers log; a latency is a difference of two clock readings.\<close>

datatype event_data = NoData | TextData "string option" | LatencyData int | ConnectionTimeData nat

record log_entry =
  eventType :: string
  le_timestamp :: nat
  le_data :: event_data

text \<open>An entry \<open>None\<close> of a latency list is an \<open>undefined\<close> that was pushed.\<close>

record metrics_rec =
  webrtcConnectionTime :: "nat option"
  sttLatencies :: "int list"
  ttsStreamingStartTime :: "int option"
  bargeInLatencies :: "int option list"

record PerformanceLogger =
  pl_sessionId :: string
  logs :: "log_entry list"
  metrics :: metrics_rec

definition new_PerformanceLogger :: "string \<Rightarrow> PerformanceLogger" where
  "new_PerformanceLogger sid =
     \<lparr>pl_sessionId = sid, logs = [],
      metrics = \<lparr>webrtcConnectionTime = None, sttLatencies = [],
                 ttsStreamingStartTime = None, bargeInLatencies = []\<rparr>\<rparr>"

definition data_latency :: "event_data \<Rightarrow> int option" where
  "data_latency d = (case d of LatencyData l \<Rightarrow> Some l | _ \<Rightarrow> None)"

definition data_connectionTime :: "event_data \<Rightarrow> nat option" where
  "data_connectionTime d = (case d of ConnectionTimeData c \<Rightarrow> Some c | _ \<Rightarrow> None)"

definition updateMetrics :: "metrics_rec \<Rightarrow> string \<Rightarrow> event_data \<Rightarrow> metrics_rec" where
  "updateMetrics m evType d =
     (if evType = ''webrtc_connected'' then m\<lparr>webrtcConnectionTime := data_connectionTime d\<rparr>
      else if evType = ''stt_final'' then
        (case data_latency d of
           Some l \<Rightarrow> if l \<noteq> 0 then m\<lparr>sttLatencies := sttLatencies m @ [l]\<rparr> else m
         | None \<Rightarrow> m)
      else if evType = ''tts_first_chunk'' then m\<lparr>ttsStreamingStartTime := data_latency d\<rparr>
      else if evType = ''barge_in'' then m\<lparr>bargeInLatencies := bargeInLatencies m @ [data_latency d]\<rparr>
      else m)"

definition logEvent :: "PerformanceLogger \<Rightarrow> string \<Rightarrow> event_data \<Rightarrow> nat \<Rightarrow> PerformanceLogger" where
  "logEvent lg evType d now =
     (let entry = \<lparr>eventType = evType, le_timestamp = now, le_data = d\<rparr>;
          lg1 = lg\<lparr>logs := logs lg @ [entry]\<rparr>
      in lg1\<lparr>metrics := updateMetrics (metrics lg1) evType d\<rparr>)"

section \<open>fake-stt.js\<close>

record FakeSTT =
  isProcessing :: bool
  voiceBuffer :: "Buffer list"
  silenceFrames :: nat
  voiceFrames :: nat
  partialText :: string
  responseIndex :: nat

text \<open>The threshold is the real number 0.02 where JavaScript has the nearest double.\<close>

definition VOICE_THRESHOLD :: real where
  "VOICE_THRESHOLD = 2 / 100"

definition VOICE_START_FRAMES :: nat where
  "VOICE_START_FRAMES = 25"

definition SILENCE_END_FRAMES :: nat where
  "SILENCE_END_FRAMES = 15"

definition responses :: "string list" where
  "responses =
     [''hello'',
      ''how are you'',
      [CHR ''w'', CHR ''h'', CHR ''a'', CHR ''t'', CHR 0x27, CHR ''s''] @ '' the weather'',
      ''tell me a joke'',
      ''goodbye'']"

definition new_FakeSTT :: FakeSTT where
  "new_FakeSTT =
     \<lparr>isProcessing = False, voiceBuffer = [], silenceFrames = 0, voiceFrames = 0,
      partialText = [], responseIndex = 0\<rparr>"

fun rms_loop :: "Buffer \<Rightarrow> nat list \<Rightarrow> real \<Rightarrow> error + real" where
  "rms_loop pcmData [] sum_acc = Inr sum_acc"
| "rms_loop pcmData (i # is) sum_acc =
     (case readInt16LE pcmData (int i * 2) of
        Inl e \<Rightarrow> Inl e
      | Inr v \<Rightarrow>
         (let sample = real_of_int v / 32768
          in rms_loop pcmData is (sum_acc + sample * sample)))"

text \<open>
  For the empty buffer JavaScript computes \<open>NaN\<close>, which exceeds no threshold; here the
  result is 0, which exceeds none either.
\<close>

definition calculateRMS :: "Buffer \<Rightarrow> error + real" where
  "calculateRMS pcmData =
     (let sampleCount = (of_nat (length pcmData) :: rat) / 2
      in case rms_loop pcmData (for_range sampleCount) 0 of
           Inl e \<Rightarrow> Inl e
         | Inr sum_acc \<Rightarrow> Inr (sqrt (sum_acc / of_rat sampleCount)))"

text \<open>\<open>this.responses[this.responseIndex]\<close>; \<open>None\<close> is \<open>undefined\<close>.\<close>

definition getNextResponse :: "FakeSTT \<Rightarrow> string option" where
  "getNextResponse s =
     (if responseIndex s < length responses then Some (responses ! responseIndex s) else None)"

definition stt_reset :: "FakeSTT \<Rightarrow> FakeSTT" where
  "stt_reset s =
     s\<lparr>isProcessing := False, voiceBuffer := [], silenceFrames := 0, voiceFrames := 0,
       partialText := []\<rparr>"

datatype event_type = Partial | Final

record TranscriptEvent =
  ev_type :: event_type
  ev_text :: "string option"
  ev_timestamp :: nat

text \<open>
  \<open>processFrame\<close> returns the event (or \<open>null\<close>, or the error raised) and the recognizer
  as the call leaves it. \<open>now\<close> is the clock reading an event is stamped with. Calling
  \<open>substring\<close> or reading \<open>length\<close> on \<open>undefined\<close> raises a \<open>TypeError\<close>.
\<close>

definition processFrame ::
  "FakeSTT \<Rightarrow> Buffer \<Rightarrow> nat \<Rightarrow> (error + TranscriptEvent option) \<times> FakeSTT" where
  "processFrame s audioFrame now =
     (case calculateRMS audioFrame of
        Inl e \<Rightarrow> (Inl e, s)
      | Inr rms \<Rightarrow>
         (let hasVoice = (VOICE_THRESHOLD < rms) in
          if hasVoice then
            (let s1 = s\<lparr>voiceFrames := voiceFrames s + 1\<rparr>;
                 s2 = s1\<lparr>silenceFrames := 0\<rparr>
             in if voiceFrames s2 = VOICE_START_FRAMES \<and> \<not> isProcessing s2 then
                  (let s3 = s2\<lparr>isProcessing := True\<rparr>
                   in case getNextResponse s3 of
                        None \<Rightarrow> (Inl TypeError, s3)
                      | Some r \<Rightarrow>
                         (let s4 = s3\<lparr>partialText := substring r 0 3\<rparr>
                          in (Inr (Some \<lparr>ev_type = Partial, ev_text = Some (partialText s4),
                                         ev_timestamp = now\<rparr>), s4)))
                else if isProcessing s2 \<and> voiceFrames s2 mod 10 = 0 then
                  (case getNextResponse s2 of
                     None \<Rightarrow> (Inl TypeError, s2)
                   | Some fullText \<Rightarrow>
                      (let progress = min (int (voiceFrames s2) - int VOICE_START_FRAMES)
                                          (int (length fullText));
                           s3 = s2\<lparr>partialText := substring fullText 0 progress\<rparr>
                       in (Inr (Some \<lparr>ev_type = Partial, ev_text = Some (partialText s3),
                                      ev_timestamp = now\<rparr>), s3)))
                else (Inr None, s2))
          else if isProcessing s then
            (let s1 = s\<lparr>silenceFrames := silenceFrames s + 1\<rparr>
             in if SILENCE_END_FRAMES \<le> silenceFrames s1 then
                  (let finalText = getNextResponse s1;
                       s2 = s1\<lparr>responseIndex := (responseIndex s1 + 1) mod length responses\<rparr>;
                       s3 = stt_reset s2
                   in (Inr (Some \<lparr>ev_type = Final, ev_text = finalText, ev_timestamp = now\<rparr>), s3))
                else (Inr None, s1))
          else (Inr None, s)))"

section \<open>fake-tts.js\<close>

text \<open>
  The only field that changes is \<open>phase\<close>. The sine is the real one where JavaScript
  has floating point.
\<close>

record FakeTTS =
  phase :: real

definition new_FakeTTS :: FakeTTS where
  "new_FakeTTS = \<lparr>phase = 0\<rparr>"

definition tts_sampleRate :: nat where
  "tts_sampleRate = 16000"

definition tts_frameSize :: nat where
  "tts_frameSize = 320"

definition frameDurationMs :: nat where
  "frameDurationMs = 20"

definition baseFrequency :: nat where
  "baseFrequency = 440"

text \<open>The loop of \<open>generateFrame\<close>; an error leaves the phase where the loop stopped.\<close>

fun frame_loop :: "real \<Rightarrow> nat list \<Rightarrow> Buffer \<Rightarrow> FakeTTS \<Rightarrow> (error + Buffer) \<times> FakeTTS" where
  "frame_loop angularFrequency [] buf t = (Inr buf, t)"
| "frame_loop angularFrequency (i # is) buf t =
     (let sample = sin (phase t) * (7 / 10);
          intSample = \<lfloor>sample * 32767\<rfloor>
      in case writeInt16LE buf intSample (int i * 2) of
           Inl e \<Rightarrow> (Inl e, t)
         | Inr buf' \<Rightarrow>
            (let t1 = t\<lparr>phase := phase t + angularFrequency\<rparr>;
                 t2 = (if 2 * pi < phase t1 then t1\<lparr>phase := phase t1 - 2 * pi\<rparr> else t1)
             in frame_loop angularFrequency is buf' t2))"

definition generateFrame :: "FakeTTS \<Rightarrow> nat \<Rightarrow> (error + Buffer) \<times> FakeTTS" where
  "generateFrame t frequency =
     (let buf = Buffer_alloc (tts_frameSize * 2);
          angularFrequency = 2 * pi * real frequency / real tts_sampleRate
      in frame_loop angularFrequency (for_range (of_nat tts_frameSize)) buf t)"

definition tts_reset :: "FakeTTS \<Rightarrow> FakeTTS" where
  "tts_reset t = t\<lparr>phase := 0\<rparr>"

text \<open>The constants \<open>generateAudioStream\<close> computes from the text before its loop.\<close>

definition wordsPerSecond :: nat where
  "wordsPerSecond = 3"

definition words :: "string \<Rightarrow> nat" where
  "words text = length (split_on CHR '' '' text)"

definition durationSeconds :: "string \<Rightarrow> rat" where
  "durationSeconds text = max 2 (of_nat (words text) / of_nat wordsPerSecond)"

definition totalFrames :: "string \<Rightarrow> nat" where
  "totalFrames text = nat \<lfloor>durationSeconds text * 1000 / of_nat frameDurationMs\<rfloor>"

definition frequency_of :: "string \<Rightarrow> nat" where
  "frequency_of text = baseFrequency + (length text * 10) mod 200"

text \<open>
  An \<open>AbortController\<close> is a number \<open>h\<close>; the controllers allocated so far are a list of
  flags, entry \<open>h\<close> being \<open>signal.aborted\<close> of controller \<open>h\<close>. \<open>signal?.aborted\<close> of a
  missing signal is not true.
\<close>

definition signal_aborted :: "bool list \<Rightarrow> nat option \<Rightarrow> bool" where
  "signal_aborted ctrls sig =
     (case sig of None \<Rightarrow> False | Some h \<Rightarrow> h < length ctrls \<and> ctrls ! h)"

definition abort :: "bool list \<Rightarrow> nat \<Rightarrow> bool list" where
  "abort ctrls h = ctrls[h := True]"

text \<open>\<open>new AbortController()\<close>: the new controller and the list with its flag, not set.\<close>

definition new_AbortController :: "bool list \<Rightarrow> nat \<times> bool list" where
  "new_AbortController ctrls = (length ctrls, ctrls @ [False])"

text \<open>
  The asynchronous generator \<open>generateAudioStream(text, signal)\<close> as an object that is
  resumed. It is suspended at one of three places: before its first statement
  (\<open>NotStarted\<close>), in \<open>await this.delay(...)\<close> with the frame it has produced
  (\<open>InDelay pcmFrame\<close>), or at \<open>yield\<close> after the consumer took the frame (\<open>Yielded\<close>);
  or it has returned (\<open>Completed\<close>). Other code of the session runs only while the
  generator waits in its delay.
\<close>

datatype stream_pc = NotStarted | InDelay Buffer | Yielded | Completed

record AudioStream =
  as_text :: string
  as_signal :: "nat option"
  as_frameIndex :: nat
  as_pc :: stream_pc

definition generateAudioStream :: "string \<Rightarrow> nat option \<Rightarrow> AudioStream" where
  "generateAudioStream text sig =
     \<lparr>as_text = text, as_signal = sig, as_frameIndex = 0, as_pc = NotStarted\<rparr>"

text \<open>
  From the test \<open>frameIndex < totalFrames\<close> of the \<open>for\<close> loop to the next suspension:
  the cancellation check, then \<open>generateFrame\<close>, then the delay.
\<close>

definition stream_loop_head ::
  "bool list \<Rightarrow> FakeTTS \<Rightarrow> AudioStream \<Rightarrow> (error + AudioStream) \<times> FakeTTS" where
  "stream_loop_head ctrls t st =
     (if as_frameIndex st < totalFrames (as_text st) then
        if signal_aborted ctrls (as_signal st) then (Inr (st\<lparr>as_pc := Completed\<rparr>), t)
        else
          (case generateFrame t (frequency_of (as_text st)) of
             (Inl e, t') \<Rightarrow> (Inl e, t')
           | (Inr pcmFrame, t') \<Rightarrow> (Inr (st\<lparr>as_pc := InDelay pcmFrame\<rparr>), t'))
      else (Inr (st\<lparr>as_pc := Completed\<rparr>), t))"

text \<open>The consumer calls \<open>next()\<close>: the generator runs from where it is suspended.\<close>

definition stream_next ::
  "bool list \<Rightarrow> FakeTTS \<Rightarrow> AudioStream \<Rightarrow> (error + AudioStream) \<times> FakeTTS" where
  "stream_next ctrls t st =
     (case as_pc st of
        NotStarted \<Rightarrow> stream_loop_head ctrls t (st\<lparr>as_frameIndex := 0\<rparr>)
      | Yielded \<Rightarrow> stream_loop_head ctrls t (st\<lparr>as_frameIndex := as_frameIndex st + 1\<rparr>)
      | InDelay f \<Rightarrow> (Inr st, t)
      | Completed \<Rightarrow> (Inr st, t))"

text \<open>The delay has elapsed: the generator yields the frame it holds.\<close>

definition stream_wake :: "AudioStream \<Rightarrow> Buffer option \<times> AudioStream" where
  "stream_wake st =
     (case as_pc st of
        InDelay pcmFrame \<Rightarrow> (Some pcmFrame, st\<lparr>as_pc := Yielded\<rparr>)
      | _ \<Rightarrow> (None, st))"

text \<open>
  A consumer \<open>for await (const chunk of stream) chunks.push(chunk)\<close>, as in
  \<open>generateCompleteAudio\<close> and the test script, with what can happen while it runs: the
  timer of the generator's delay fires (\<open>Timer\<close>), or somebody aborts the controller of
  the stream's signal (\<open>Abort\<close>).
\<close>

datatype stream_event = Timer | Abort

record Collector =
  c_ctrls :: "bool list"
  c_tts :: FakeTTS
  c_stream :: AudioStream
  c_chunks :: "Buffer list"
  c_error :: "error option"

definition collect_pull :: "Collector \<Rightarrow> Collector" where
  "collect_pull c =
     (case stream_next (c_ctrls c) (c_tts c) (c_stream c) of
        (Inl e, t') \<Rightarrow> c\<lparr>c_tts := t', c_stream := (c_stream c)\<lparr>as_pc := Completed\<rparr>, c_error := Some e\<rparr>
      | (Inr st, t') \<Rightarrow> c\<lparr>c_tts := t', c_stream := st\<rparr>)"

definition collect_start :: "bool list \<Rightarrow> FakeTTS \<Rightarrow> string \<Rightarrow> nat option \<Rightarrow> Collector" where
  "collect_start ctrls t text sig =
     collect_pull \<lparr>c_ctrls = ctrls, c_tts = t, c_stream = generateAudioStream text sig,
                   c_chunks = [], c_error = None\<rparr>"

definition collect_step :: "Collector \<Rightarrow> stream_event \<Rightarrow> Collector" where
  "collect_step c ev =
     (case ev of
        Abort \<Rightarrow>
          (case as_signal (c_stream c) of
             None \<Rightarrow> c
           | Some h \<Rightarrow> c\<lparr>c_ctrls := abort (c_ctrls c) h\<rparr>)
      | Timer \<Rightarrow>
          (case stream_wake (c_stream c) of
             (None, st) \<Rightarrow> c
           | (Some chunk, st) \<Rightarrow> collect_pull (c\<lparr>c_stream := st, c_chunks := c_chunks c @ [chunk]\<rparr>)))"

definition collect_run :: "Collector \<Rightarrow> stream_event list \<Rightarrow> Collector" where
  "collect_run c evs = foldl collect_step c evs"

text \<open>Nobody aborts: the loop runs, one timer after the other, until the generator has returned.\<close>

definition collect_measure :: "Collector \<Rightarrow> nat" where
  "collect_measure c =
     (case as_pc (c_stream c) of
        InDelay f \<Rightarrow> Suc (totalFrames (as_text (c_stream c)) - as_frameIndex (c_stream c))
      | _ \<Rightarrow> 0)"

lemma collect_step_Timer_measure:
  "as_pc (c_stream c) = InDelay f \<Longrightarrow> collect_measure (collect_step c Timer) < collect_measure c"
  by (auto simp: collect_measure_def collect_step_def stream_wake_def collect_pull_def
      stream_next_def stream_loop_head_def split: prod.splits sum.splits stream_pc.splits)

function collect_all :: "Collector \<Rightarrow> Collector" where
  "collect_all c =
     (case as_pc (c_stream c) of
        InDelay f \<Rightarrow> collect_all (collect_step c Timer)
      | _ \<Rightarrow> c)"
  by pat_completeness auto
termination
  by (relation "measure collect_measure") (auto simp: collect_step_Timer_measure)

declare collect_all.simps [simp del]

text \<open>\<open>generateCompleteAudio(text)\<close>: a fresh controller that nobody aborts.\<close>

definition generateCompleteAudio :: "FakeTTS \<Rightarrow> string \<Rightarrow> (error + Buffer) \<times> FakeTTS" where
  "generateCompleteAudio t text =
     (let c = collect_all (collect_start [False] t text (Some 0))
      in case c_error c of
           Some e \<Rightarrow> (Inl e, c_tts c)
         | None \<Rightarrow> (Inr (concat (c_chunks c)), c_tts c))"


section \<open>webrtc-audio-handler.js\<close>

text \<open>
  The media library is outside the repository: \<open>audioSource\<close> is the list of sample
  chunks handed to \<open>RTCAudioSource.onData\<close> so far, or \<open>None\<close> before \<open>createAudioSource\<close>
  and after \<open>destroy\<close>.
\<close>

record WebRTCAudioHandler =
  audioSource :: "16 word list list option"
  sentDebugCount :: nat

definition CHUNK_SIZE :: nat where
  "CHUNK_SIZE = 160"

function send_loop ::
  "16 word list \<Rightarrow> nat \<Rightarrow> 16 word list list \<Rightarrow> nat \<Rightarrow> 16 word list list \<times> nat" where
  "send_loop samples i src cnt =
     (if i < length samples then
        (let chunk = drop i (take (min (i + CHUNK_SIZE) (length samples)) samples);
             cnt' = (if cnt < 6 then cnt + 1 else cnt)
         in send_loop samples (i + CHUNK_SIZE) (src @ [chunk]) cnt')
      else (src, cnt))"
  by pat_completeness auto
termination
  by (relation "measure (\<lambda>(samples, i, src, cnt). length samples - i)")
     (auto simp: CHUNK_SIZE_def)

definition sendAudio :: "WebRTCAudioHandler \<Rightarrow> 16 word list \<Rightarrow> bool \<times> WebRTCAudioHandler" where
  "sendAudio ah samples =
     (case audioSource ah of
        None \<Rightarrow> (False, ah)
      | Some src \<Rightarrow>
         (let (src', cnt') = send_loop samples 0 src (sentDebugCount ah)
          in (True, ah\<lparr>audioSource := Some src', sentDebugCount := cnt'\<rparr>)))"

text \<open>\<open>destroy()\<close>: the sink and the callback are not part of the model.\<close>

definition destroy :: "WebRTCAudioHandler \<Rightarrow> WebRTCAudioHandler" where
  "destroy ah = ah\<lparr>audioSource := None\<rparr>"

section \<open>session-manager.js\<close>

text \<open>\<open>new Int16Array(pcmData.buffer, pcmData.byteOffset, pcmData.length / 2)\<close>.\<close>

fun Int16Array_of :: "Buffer \<Rightarrow> 16 word list" where
  "Int16Array_of (lo # hi # rest) = word_cat hi lo # Int16Array_of rest"
| "Int16Array_of rest = []"

record RTCPeerConnection =
  pc_closed :: bool

text \<open>
  The fields of \<open>Session\<close>, then what the model adds: the \<open>AbortController\<close>s allocated so
  far (\<open>ttsAbortController\<close> is \<open>null\<close> or the number of one of them), and the wall clock,
  whose \<open>n\<close>-th reading by \<open>Date.now()\<close> is \<open>clock n\<close>.
\<close>

record Session =
  sessionId :: string
  peerConnection :: "RTCPeerConnection option"
  audioHandler :: "WebRTCAudioHandler option"
  stateMachine :: StateMachine
  stt :: FakeSTT
  tts :: FakeTTS
  logger :: PerformanceLogger
  ttsAbortController :: "nat option"
  currentTTSStream :: "AudioStream option"
  audioBuffer :: "Buffer list"
  isProcessingAudio :: bool
  controllers :: "bool list"
  clock :: "nat \<Rightarrow> nat"
  clockReads :: nat

definition new_Session ::
  "string \<Rightarrow> RTCPeerConnection option \<Rightarrow> WebRTCAudioHandler option \<Rightarrow> (nat \<Rightarrow> nat) \<Rightarrow> Session" where
  "new_Session sid pc ah clk =
     \<lparr>sessionId = sid, peerConnection = pc, audioHandler = ah,
      stateMachine = new_StateMachine sid, stt = new_FakeSTT, tts = new_FakeTTS,
      logger = new_PerformanceLogger sid, ttsAbortController = None,
      currentTTSStream = None, audioBuffer = [], isProcessingAudio = False,
      controllers = [], clock = clk, clockReads = 0\<rparr>"

definition Date_now :: "Session \<Rightarrow> nat" where
  "Date_now s = clock s (clockReads s)"

definition tick :: "Session \<Rightarrow> Session" where
  "tick s = s\<lparr>clockReads := clockReads s + 1\<rparr>"

text \<open>\<open>this.logger.logEvent(...)\<close>, which reads the clock once.\<close>

definition s_logEvent :: "Session \<Rightarrow> string \<Rightarrow> event_data \<Rightarrow> Session" where
  "s_logEvent s evType d = tick (s\<lparr>logger := logEvent (logger s) evType d (Date_now s)\<rparr>)"

text \<open>\<open>this.stateMachine.transition(...)\<close>, which reads the clock once when the transition is valid.\<close>

definition s_transition :: "Session \<Rightarrow> SessionState \<Rightarrow> metadata \<Rightarrow> Session" where
  "s_transition s newState md =
     (case transition (stateMachine s) newState md (Date_now s) of
        (True, sm') \<Rightarrow> tick (s\<lparr>stateMachine := sm'\<rparr>)
      | (False, sm') \<Rightarrow> s\<lparr>stateMachine := sm'\<rparr>)"

text \<open>\<open>this.ttsAbortController = new AbortController()\<close>.\<close>

definition s_new_AbortController :: "Session \<Rightarrow> Session" where
  "s_new_AbortController s =
     (let (h, ctrls') = new_AbortController (controllers s)
      in s\<lparr>ttsAbortController := Some h, controllers := ctrls'\<rparr>)"

text \<open>\<open>this.ttsAbortController.abort()\<close> for the controller \<open>h\<close>.\<close>

definition s_abort :: "Session \<Rightarrow> nat \<Rightarrow> Session" where
  "s_abort s h = s\<lparr>controllers := abort (controllers s) h\<rparr>"

definition startAudioProcessing :: "Session \<Rightarrow> Session" where
  "startAudioProcessing s = s\<lparr>isProcessingAudio := True\<rparr>"

definition start :: "Session \<Rightarrow> Session" where
  "start s =
     (let s1 = s_logEvent s ''session_start'' NoData;
          s2 = s_transition s1 LISTENING NoMeta
      in startAudioProcessing s2)"

definition sendAudioToBrowser :: "Session \<Rightarrow> Buffer \<Rightarrow> Session" where
  "sendAudioToBrowser s pcmData =
     (case audioHandler s of
        None \<Rightarrow> s
      | Some ah \<Rightarrow>
         (let samples = Int16Array_of pcmData
          in s\<lparr>audioHandler := Some (snd (sendAudio ah samples))\<rparr>))"

text \<open>
  \<open>handleBargeIn\<close>, statement by statement: the list holds the session before the first
  statement and after each one, in the order of the source.
\<close>

definition handleBargeIn_steps :: "Session \<Rightarrow> Session list" where
  "handleBargeIn_steps s0 =
     (let bargeInStart = Date_now s0;
          s1 = tick s0;
          s2 = s_transition s1 INTERRUPTED (MetaTimestamp bargeInStart);
          s3 = (case ttsAbortController s2 of None \<Rightarrow> s2 | Some h \<Rightarrow> s_abort s2 h);
          s4 = (case ttsAbortController s3 of None \<Rightarrow> s3 | Some h \<Rightarrow> s_new_AbortController s3);
          s5 = s4\<lparr>audioBuffer := []\<rparr>;
          s6 = s5\<lparr>tts := tts_reset (tts s5)\<rparr>;
          s7 = s_transition s6 LISTENING NoMeta;
          s8 = s7\<lparr>stt := stt_reset (stt s7)\<rparr>;
          bargeInLatency = int (Date_now s8) - int bargeInStart;
          s9 = tick s8;
          s10 = s_logEvent s9 ''barge_in'' (LatencyData bargeInLatency)
      in [s0, s1, s2, s3, s4, s5, s6, s7, s8, s9, s10])"

definition handleBargeIn :: "Session \<Rightarrow> Session" where
  "handleBargeIn s = last (handleBargeIn_steps s)"

text \<open>
  One activation of \<open>generateResponse\<close>: its local variables and the generator it reads.
  It is suspended only while the generator waits in its delay.
\<close>

record Reply =
  r_ttsStartTime :: nat
  r_firstChunk :: bool
  r_chunkCount :: nat
  r_abortSignal :: nat
  r_stream :: AudioStream

text \<open>
  The head of the \<open>for await\<close> loop: \<open>next()\<close> is called. The result is the session and
  the activation if it is suspended again, or no activation when \<open>generateResponse\<close> has
  returned: after the generator's return the code after the loop runs; an error the
  generator raises is caught and logged to the console.
\<close>

definition reply_pull :: "Session \<Rightarrow> Reply \<Rightarrow> Session \<times> Reply option" where
  "reply_pull s r =
     (case stream_next (controllers s) (tts s) (r_stream r) of
        (Inl e, t') \<Rightarrow> (s\<lparr>tts := t'\<rparr>, None)
      | (Inr st, t') \<Rightarrow>
         (case as_pc st of
            InDelay f \<Rightarrow> (s\<lparr>tts := t'\<rparr>, Some (r\<lparr>r_stream := st\<rparr>))
          | _ \<Rightarrow>
             (let s1 = s_logEvent (s\<lparr>tts := t'\<rparr>) ''tts_complete'' NoData;
                  s2 = s_transition s1 LISTENING NoMeta;
                  s3 = s2\<lparr>tts := tts_reset (tts s2)\<rparr>
              in (s3, None))))"

text \<open>\<open>generateResponse(userText)\<close> up to its first suspension.\<close>

definition generateResponse :: "Session \<Rightarrow> string option \<Rightarrow> Session \<times> Reply option" where
  "generateResponse s userText =
     (let botResponse = ''You said: '' @ js_str userText;
          s1 = s_logEvent s ''tts_start'' (TextData (Some botResponse));
          s2 = s_transition s1 SPEAKING (MetaText (Some botResponse));
          (h, ctrls') = new_AbortController (controllers s2);
          s3 = s2\<lparr>ttsAbortController := Some h, controllers := ctrls'\<rparr>;
          ttsStartTime = Date_now s3;
          s4 = tick s3;
          abortSignal = h;
          r = \<lparr>r_ttsStartTime = ttsStartTime, r_firstChunk = True, r_chunkCount = 0,
               r_abortSignal = abortSignal,
               r_stream = generateAudioStream botResponse (Some abortSignal)\<rparr>
      in reply_pull s4 r)"

text \<open>
  The generator's delay has elapsed: it yields its frame, the body of the \<open>for await\<close>
  loop runs with it, and the loop calls \<open>next()\<close> again.
\<close>

definition generateResponse_resume :: "Session \<Rightarrow> Reply \<Rightarrow> Session \<times> Reply option" where
  "generateResponse_resume s r =
     (case stream_wake (r_stream r) of
        (None, st) \<Rightarrow> (s, Some r)
      | (Some pcmChunk, st) \<Rightarrow>
         (let (s1, r1) =
                (if r_firstChunk r then
                   (let latency = int (Date_now s) - int (r_ttsStartTime r);
                        sa = tick s;
                        sb = s_logEvent sa ''tts_first_chunk'' (LatencyData latency)
                    in (sb, r\<lparr>r_firstChunk := False\<rparr>))
                 else (s, r));
              r2 = r1\<lparr>r_chunkCount := r_chunkCount r1 + 1\<rparr>;
              s2 = sendAudioToBrowser s1 pcmChunk
          in if signal_aborted (controllers s2) (Some (r_abortSignal r2)) then (s2, None)
             else reply_pull s2 (r2\<lparr>r_stream := st\<rparr>)))"

text \<open>
  \<open>processAudioFrame(audioFrame)\<close>: the error it raises if any, the session, and the
  activation of \<open>generateResponse\<close> it leaves suspended if any.
\<close>

definition processAudioFrame ::
  "Session \<Rightarrow> Buffer \<Rightarrow> (error option) \<times> Session \<times> Reply option" where
  "processAudioFrame s audioFrame =
     (if is_state (stateMachine s) SPEAKING then
        (case calculateRMS audioFrame of
           Inl e \<Rightarrow> (Some e, s, None)
         | Inr rms \<Rightarrow>
            if VOICE_THRESHOLD < rms then (None, handleBargeIn s, None)
            else (None, s, None))
      else if \<not> is_state (stateMachine s) LISTENING then (None, s, None)
      else
        (case processFrame (stt s) audioFrame (Date_now s) of
           (Inl e, stt') \<Rightarrow> (Some e, s\<lparr>stt := stt'\<rparr>, None)
         | (Inr None, stt') \<Rightarrow> (None, s\<lparr>stt := stt'\<rparr>, None)
         | (Inr (Some result), stt') \<Rightarrow>
            (let s1 = tick (s\<lparr>stt := stt'\<rparr>) in
             if ev_type result = Partial then
               (None, s_logEvent s1 ''stt_partial'' (TextData (ev_text result)), None)
             else
               (let s2 = s_logEvent s1 ''stt_final'' (TextData (ev_text result));
                    s3 = s_transition s2 PROCESSING (MetaText (ev_text result));
                    (s4, r) = generateResponse s3 (ev_text result)
                in (None, s4, r)))))"

text \<open>\<open>close()\<close>.\<close>

definition close :: "Session \<Rightarrow> Session" where
  "close s =
     (let s1 = (case ttsAbortController s of None \<Rightarrow> s | Some h \<Rightarrow> s_abort s h);
          s2 = (case peerConnection s1 of
                  None \<Rightarrow> s1
                | Some pc \<Rightarrow> s1\<lparr>peerConnection := Some (pc\<lparr>pc_closed := True\<rparr>)\<rparr>);
          s3 = s2\<lparr>isProcessingAudio := False\<rparr>
      in s_logEvent s3 ''session_close'' NoData)"

text \<open>
  The handler of inbound audio in \<open>index.js\<close>:
  \<open>frames.forEach(frame => session.processAudioFrame(frame))\<close>. The activations of
  \<open>generateResponse\<close> the calls leave suspended run on their own.
\<close>

definition processAudioFrames :: "Session \<Rightarrow> Buffer list \<Rightarrow> Session" where
  "processAudioFrames s frames = foldl (\<lambda>s frame. fst (snd (processAudioFrame s frame))) s frames"

section \<open>index.js\<close>

text \<open>
  What the connection handler of \<open>index.js\<close> does to a session besides calling its methods.
  When the peer connection reports \<open>connected\<close> it logs the connection time on the
  session's logger: \<open>session.logger.logEvent('webrtc_connected', { connectionTime })\<close>.
\<close>

definition webrtc_connected :: "Session \<Rightarrow> nat \<Rightarrow> Session" where
  "webrtc_connected s connectionTime =
     s_logEvent s ''webrtc_connected'' (ConnectionTimeData connectionTime)"

text \<open>
  \<open>handleClose\<close> calls \<open>audioHandler.destroy()\<close> and \<open>peerConnection.close()\<close> on the objects
  the session holds too.
\<close>

definition destroy_audioHandler :: "Session \<Rightarrow> Session" where
  "destroy_audioHandler s =
     (case audioHandler s of
        None \<Rightarrow> s
      | Some ah \<Rightarrow> s\<lparr>audioHandler := Some (destroy ah)\<rparr>)"

definition close_peerConnection :: "Session \<Rightarrow> Session" where
  "close_peerConnection s =
     (case peerConnection s of
        None \<Rightarrow> s
      | Some pc \<Rightarrow> s\<lparr>peerConnection := Some (pc\<lparr>pc_closed := True\<rparr>)\<rparr>)"

text \<open>
  The sessions the server can get into: a session is constructed, and then \<open>start\<close>,
  \<open>processAudioFrame\<close>, \<open>close\<close> and the resumption of a suspended \<open>generateResponse\<close>
  act on it, in any order (here any activation may be resumed, a suspended one or not),
  and so do the statements of \<open>index.js\<close> above; the rest of the server may read the
  clock in between.
\<close>

inductive reachable :: "Session \<Rightarrow> bool" where
  reach_new: "reachable (new_Session sid pc ah clk)"
| reach_start: "reachable s \<Longrightarrow> reachable (start s)"
| reach_frame: "reachable s \<Longrightarrow> reachable (fst (snd (processAudioFrame s frame)))"
| reach_resume: "reachable s \<Longrightarrow> reachable (fst (generateResponse_resume s r))"
| reach_close: "reachable s \<Longrightarrow> reachable (close s)"
| reach_connected: "reachable s \<Longrightarrow> reachable (webrtc_connected s connectionTime)"
| reach_destroy: "reachable s \<Longrightarrow> reachable (destroy_audioHandler s)"
| reach_pc_close: "reachable s \<Longrightarrow> reachable (close_peerConnection s)"
| reach_tick: "reachable s \<Longrightarrow> reachable (tick s)"

section \<open>test-audio.js\<close>

text \<open>
  The test script feeds the recognizer frames of 640 bytes with and without voice. Here a
  frame with voice holds the sample 16384 three hundred and twenty times, a silent frame
  the sample 0.
\<close>

definition test_voiced_frame :: Buffer where
  "test_voiced_frame = concat (replicate 320 [0, 64])"

definition test_silent_frame :: Buffer where
  "test_silent_frame = concat (replicate 320 [0, 0])"

text \<open>
  The loop \<open>for (...) { const result = stt.processFrame(frame); ... }\<close>: the frames one
  after the other, each with the clock reading of its call, and the results in order.
\<close>

fun processFrames ::
  "FakeSTT \<Rightarrow> (Buffer \<times> nat) list \<Rightarrow> (error + TranscriptEvent option) list \<times> FakeSTT" where
  "processFrames s [] = ([], s)"
| "processFrames s ((frame, now) # rest) =
     (let (result, s1) = processFrame s frame now;
          (results, s2) = processFrames s1 rest
      in (result # results, s2))"

text \<open>The events among the results: neither \<open>null\<close> nor an error.\<close>

fun events_of :: "(error + TranscriptEvent option) list \<Rightarrow> TranscriptEvent list" where
  "events_of [] = []"
| "events_of (Inr (Some e) # rs) = e # events_of rs"
| "events_of (r # rs) = events_of rs"

text \<open>
  What the specification asks of the transcript events of consecutive utterances, read
  from left to right; \<open>prev\<close> holds the texts of the Partials of the utterance that is
  open. A Partial's text is at least as long as those before it in its utterance; the
  Final that ends the utterance has the text of each of them as a prefix, and after it the
  next utterance starts: a Final with no Partial since the Final before it would be a
  second Final of one utterance. Every event carries a text.
\<close>

fun utterances_ok :: "string list \<Rightarrow> TranscriptEvent list \<Rightarrow> bool" where
  "utterances_ok prev [] = True"
| "utterances_ok prev (e # es) =
     (case ev_text e of
        None \<Rightarrow> False
      | Some t \<Rightarrow>
         (case ev_type e of
            Partial \<Rightarrow> list_all (\<lambda>p. length p \<le> length t) prev \<and> utterances_ok (prev @ [t]) es
          | Final \<Rightarrow> prev \<noteq> [] \<and> list_all (\<lambda>p. prefix p t) prev \<and> utterances_ok [] es))"

text \<open>A session for the examples: no peer connection, no audio handler, a clock that starts at 1000.\<close>

definition test_session :: Session where
  "test_session = new_Session ''s1'' None None (\<lambda>n. 1000 + n)"

text \<open>
  The same session in the middle of a reply: started, then fed twenty-five frames with
  voice and fifteen silent ones, the last of which brings the Final and starts
  \<open>generateResponse\<close>, now suspended in the delay of its first frame.
\<close>

definition test_speaking :: Session where
  "test_speaking =
     processAudioFrames (start test_session)
       (replicate 24 test_voiced_frame @ [test_voiced_frame] @
        replicate 14 test_silent_frame @ [test_silent_frame])"

text \<open>
  A session as \<open>index.js\<close> sets it up: a peer connection, an audio handler whose source
  has been created, \<open>start\<close>, then the connection is reported; and the same session in the
  middle of a reply, after the same forty frames.
\<close>

definition test_handler :: WebRTCAudioHandler where
  "test_handler = \<lparr>audioSource = Some [], sentDebugCount = 0\<rparr>"

definition test_connected :: Session where
  "test_connected =
     webrtc_connected
       (start (new_Session ''s2'' (Some \<lparr>pc_closed = False\<rparr>) (Some test_handler) (\<lambda>n. 1000 + n)))
       250"

definition test_connected_speaking :: Session where
  "test_connected_speaking =
     processAudioFrames test_connected
       (replicate 24 test_voiced_frame @ [test_voiced_frame] @
        replicate 14 test_silent_frame @ [test_silent_frame])"

section \<open>Invariants used in the proofs\<close>

text \<open>What holds of a collector that nobody aborts, between two timers.\<close>

definition collect_inv :: "Collector \<Rightarrow> bool" where
  "collect_inv c =
     (c_error c = None \<and>
      \<not> signal_aborted (c_ctrls c) (as_signal (c_stream c)) \<and>
      (\<forall>f\<in>set (c_chunks c). length f = 640) \<and>
      (case as_pc (c_stream c) of
         InDelay f \<Rightarrow> length f = 640 \<and> as_frameIndex (c_stream c) = length (c_chunks c) \<and>
                      as_frameIndex (c_stream c) < totalFrames (as_text (c_stream c))
       | Completed \<Rightarrow> length (c_chunks c) = totalFrames (as_text (c_stream c))
       | _ \<Rightarrow> False))"

text \<open>
  What holds of the recognizer between two frames, \<open>prev\<close> being the texts of the Partials
  of the open utterance.
\<close>

definition stt_inv :: "FakeSTT \<Rightarrow> string list \<Rightarrow> bool" where
  "stt_inv s prev =
     (responseIndex s < length responses \<and>
      (if isProcessing s then
         25 \<le> voiceFrames s \<and> prev \<noteq> [] \<and>
         (\<exists>n. n \<le> max 3 (voiceFrames s - 25) \<and>
              partialText s = take n (responses ! responseIndex s)) \<and>
         list_all (\<lambda>p. prefix p (responses ! responseIndex s) \<and>
                        length p \<le> length (partialText s)) prev
       else voiceFrames s < 25 \<and> prev = []))"

text \<open>
  What holds of every session the server can get into: the handle it holds is one of the
  controllers allocated, and in \<open>SPEAKING\<close> it holds one.
\<close>

definition session_inv :: "Session \<Rightarrow> bool" where
  "session_inv s =
     ((\<forall>h. ttsAbortController s = Some h \<longrightarrow> h < length (controllers s)) \<and>
      (state (stateMachine s) = SPEAKING \<longrightarrow> ttsAbortController s \<noteq> None))"

section \<open>Theorems\<close>

lemma isValidTransition_spec:
  "isValidTransition s t = List.member spec_valid_transitions (s, t)"
  by (cases s; cases t) (simp_all add: isValidTransition_def spec_valid_transitions_def)

text \<open>
  C4. For every current state and every requested state, \<open>transition\<close> returns true
  exactly when the pair is in the specification's table; it then sets the state to the
  requested one and appends one record of the transition to the history. Otherwise it
  returns false and the state machine is unchanged (state, history and listener calls):
  the result is an ordinary value, there is no failure branch.
\<close>

theorem C4_transition_iff_valid:
  "(fst (transition sm t md now) = List.member spec_valid_transitions (state sm, t)) \<and>
   (if List.member spec_valid_transitions (state sm, t)
    then state (snd (transition sm t md now)) = t \<and>
         history (snd (transition sm t md now)) =
           history sm @ [\<lparr>t_from = state sm, t_to = t, t_timestamp = now, t_metadata = md\<rparr>]
    else transition sm t md now = (False, sm))"
  by (simp add: transition_def Let_def isValidTransition_spec)

theorem C4_transition_witness:
  "fst (transition (new_StateMachine ''s1'') SPEAKING NoMeta 7) = False \<and>
   transition (new_StateMachine ''s1'') SPEAKING NoMeta 7 = (False, new_StateMachine ''s1'') \<and>
   fst (transition (new_StateMachine ''s1'') LISTENING NoMeta 7) = True \<and>
   state (snd (transition (new_StateMachine ''s1'') LISTENING NoMeta 7)) = LISTENING"
  using C4_transition_iff_valid [of "new_StateMachine ''s1''" SPEAKING NoMeta 7]
        C4_transition_iff_valid [of "new_StateMachine ''s1''" LISTENING NoMeta 7]
  by (simp add: new_StateMachine_def spec_valid_transitions_def)

subsection \<open>The synthesizer's frames\<close>

lemma intSample_range:
  "- 32768 \<le> \<lfloor>sin (x::real) * (7 / 10) * 32767\<rfloor> \<and> \<lfloor>sin x * (7 / 10) * 32767\<rfloor> \<le> 32767"
proof -
  have lo: "- 1 \<le> sin x" by (rule sin_ge_minus_one)
  have hi: "sin x \<le> 1" by (rule sin_le_one)
  have "real_of_int (- 32768) \<le> sin x * (7 / 10) * 32767" using lo by (simp, linarith)
  then have a: "- 32768 \<le> \<lfloor>sin x * (7 / 10) * 32767\<rfloor>" by (simp only: le_floor_iff)
  have "sin x * (7 / 10) * 32767 < real_of_int 32767 + 1" using hi by (simp, linarith)
  then have b: "\<lfloor>sin x * (7 / 10) * 32767\<rfloor> \<le> 32767" by (simp only: floor_le_iff)
  from a b show ?thesis by simp
qed

lemma writeInt16LE_ok:
  "- 32768 \<le> v \<Longrightarrow> v \<le> 32767 \<Longrightarrow> 0 \<le> off \<Longrightarrow> off + 2 \<le> int (length buf) \<Longrightarrow>
   \<exists>buf'. writeInt16LE buf v off = Inr buf' \<and> length buf' = length buf"
  by (simp add: writeInt16LE_def)

lemma frame_loop_ok:
  "length buf = 640 \<Longrightarrow> \<forall>i\<in>set is. i < 320 \<Longrightarrow>
   \<exists>buf' t'. frame_loop w is buf t = (Inr buf', t') \<and> length buf' = 640"
proof (induction "is" arbitrary: buf t)
  case Nil
  then show ?case by simp
next
  case (Cons i "is")
  from Cons.prems have i: "i < 320" by simp
  obtain buf1 where w: "writeInt16LE buf \<lfloor>sin (phase t) * (7 / 10) * 32767\<rfloor> (int i * 2) = Inr buf1"
    and l1: "length buf1 = length buf"
    using writeInt16LE_ok [of "\<lfloor>sin (phase t) * (7 / 10) * 32767\<rfloor>" "int i * 2" buf]
      intSample_range [of "phase t"] i Cons.prems(1) by auto
  from l1 Cons.prems have "length buf1 = 640" by simp
  from Cons.IH [OF this] Cons.prems(2) w show ?case
    by (simp add: Let_def)
qed

lemma generateFrame_ok:
  "\<exists>buf t'. generateFrame t f = (Inr buf, t') \<and> length buf = 640"
  unfolding generateFrame_def Let_def
  by (rule frame_loop_ok) (simp_all add: Buffer_alloc_def tts_frameSize_def for_range_def)


lemma stream_loop_head_live:
  "\<not> signal_aborted ctrls (as_signal st) \<Longrightarrow>
   as_frameIndex st < totalFrames (as_text st) \<Longrightarrow>
   \<exists>f t'. stream_loop_head ctrls t st = (Inr (st\<lparr>as_pc := InDelay f\<rparr>), t') \<and> length f = 640"
  using generateFrame_ok [of t "frequency_of (as_text st)"]
  by (auto simp: stream_loop_head_def)

lemma stream_loop_head_done:
  "\<not> as_frameIndex st < totalFrames (as_text st) \<Longrightarrow>
   stream_loop_head ctrls t st = (Inr (st\<lparr>as_pc := Completed\<rparr>), t)"
  by (simp add: stream_loop_head_def)

lemma collect_start_inv:
  assumes "\<not> signal_aborted ctrls sig"
  shows "collect_inv (collect_start ctrls t text sig) \<and>
         as_text (c_stream (collect_start ctrls t text sig)) = text"
proof (cases "0 < totalFrames text")
  case True
  let ?st = "(generateAudioStream text sig)\<lparr>as_frameIndex := 0\<rparr>"
  from True assms obtain f t' where
    "stream_loop_head ctrls t ?st = (Inr (?st\<lparr>as_pc := InDelay f\<rparr>), t')" "length f = 640"
    using stream_loop_head_live [of ctrls ?st t] by (auto simp: generateAudioStream_def)
  with True assms show ?thesis
    by (simp add: collect_start_def collect_pull_def stream_next_def generateAudioStream_def
        collect_inv_def)
next
  case False
  let ?st = "(generateAudioStream text sig)\<lparr>as_frameIndex := 0\<rparr>"
  from False have "stream_loop_head ctrls t ?st = (Inr (?st\<lparr>as_pc := Completed\<rparr>), t)"
    by (intro stream_loop_head_done) (simp add: generateAudioStream_def)
  with False assms show ?thesis
    by (simp add: collect_start_def collect_pull_def stream_next_def generateAudioStream_def
        collect_inv_def)
qed

lemma collect_step_inv:
  assumes "collect_inv c" "as_pc (c_stream c) = InDelay f"
  shows "collect_inv (collect_step c Timer) \<and>
         as_text (c_stream (collect_step c Timer)) = as_text (c_stream c)"
proof -
  let ?st = "(c_stream c)\<lparr>as_pc := Yielded, as_frameIndex := as_frameIndex (c_stream c) + 1\<rparr>"
  from assms have na: "\<not> signal_aborted (c_ctrls c) (as_signal ?st)"
    and lf: "length f = 640" and idx: "as_frameIndex (c_stream c) = length (c_chunks c)"
    and lt: "as_frameIndex (c_stream c) < totalFrames (as_text (c_stream c))"
    and ne: "c_error c = None" and ch: "\<forall>f\<in>set (c_chunks c). length f = 640"
    by (simp_all add: collect_inv_def)
  show ?thesis
  proof (cases "as_frameIndex ?st < totalFrames (as_text ?st)")
    case True
    from stream_loop_head_live [OF na True, of "c_tts c"] obtain g t' where
      "stream_loop_head (c_ctrls c) (c_tts c) ?st = (Inr (?st\<lparr>as_pc := InDelay g\<rparr>), t')" "length g = 640"
      by blast
    with assms(2) True na lf idx ne ch show ?thesis
      by (simp add: collect_step_def stream_wake_def collect_pull_def stream_next_def collect_inv_def)
  next
    case False
    from stream_loop_head_done [OF False, of "c_ctrls c" "c_tts c"]
    have "stream_loop_head (c_ctrls c) (c_tts c) ?st = (Inr (?st\<lparr>as_pc := Completed\<rparr>), c_tts c)" .
    with assms(2) False na lf idx lt ne ch show ?thesis
      by (simp add: collect_step_def stream_wake_def collect_pull_def stream_next_def collect_inv_def)
  qed
qed

lemma collect_all_inv:
  "collect_inv c \<Longrightarrow>
   collect_inv (collect_all c) \<and> as_pc (c_stream (collect_all c)) = Completed \<and>
   as_text (c_stream (collect_all c)) = as_text (c_stream c)"
proof (induction c rule: collect_all.induct)
  case (1 c)
  show ?case
  proof (cases "as_pc (c_stream c)")
    case (InDelay f)
    from collect_step_inv [OF "1.prems" InDelay] "1.IH" [OF InDelay] InDelay
    show ?thesis by (simp add: collect_all.simps [of c])
  next
    case Completed
    with "1.prems" show ?thesis by (simp add: collect_all.simps [of c])
  next
    case NotStarted
    with "1.prems" show ?thesis by (simp add: collect_inv_def)
  next
    case Yielded
    with "1.prems" show ?thesis by (simp add: collect_inv_def)
  qed
qed

lemma collect_all_chunks:
  assumes "\<not> signal_aborted ctrls sig"
  shows "c_error (collect_all (collect_start ctrls t text sig)) = None \<and>
         as_pc (c_stream (collect_all (collect_start ctrls t text sig))) = Completed \<and>
         length (c_chunks (collect_all (collect_start ctrls t text sig))) = totalFrames text \<and>
         (\<forall>f\<in>set (c_chunks (collect_all (collect_start ctrls t text sig))). length f = 640)"
proof -
  from collect_start_inv [OF assms, of t "text"]
  have i0: "collect_inv (collect_start ctrls t text sig)"
    and t0: "as_text (c_stream (collect_start ctrls t text sig)) = text" by simp_all
  from collect_all_inv [OF i0] t0
  have "collect_inv (collect_all (collect_start ctrls t text sig))"
    and "as_pc (c_stream (collect_all (collect_start ctrls t text sig))) = Completed"
    and "as_text (c_stream (collect_all (collect_start ctrls t text sig))) = text" by simp_all
  then show ?thesis by (simp add: collect_inv_def)
qed

lemma length_split_on: "length (split_on sep cs) = Suc (length (filter (\<lambda>c. c = sep) cs))"
  by (induction cs) (auto split: list.splits)



lemma totalFrames_eq:
  "int (totalFrames text) = \<lfloor>max 2 ((of_nat (words text) :: rat) / 3) * 1000 / 20\<rfloor>"
proof -
  have "0 \<le> max 2 ((of_nat (words text) :: rat) / 3) * 1000 / 20" by simp
  then have "0 \<le> \<lfloor>max 2 ((of_nat (words text) :: rat) / 3) * 1000 / 20\<rfloor>" by (simp only: zero_le_floor)
  then show ?thesis
    by (simp add: totalFrames_def durationSeconds_def wordsPerSecond_def frameDurationMs_def)
qed

lemma totalFrames_six: "words text \<le> 6 \<Longrightarrow> totalFrames text = 100"
  by (simp add: totalFrames_def durationSeconds_def wordsPerSecond_def frameDurationMs_def max_def)

text \<open>
  C3, as the code has it. For every reply text, with \<open>w\<close> the number of pieces between single
  spaces (\<open>text.split(' ').length\<close>, one more than the number of spaces), and a signal that
  nobody aborts, the synthesizer's stream yields exactly \<open>floor(max(2, w/3) * 1000 / 20)\<close>
  frames (the claim has the ceiling), without error, and then returns; each frame is 640
  bytes, that is 320 samples of 16 bits; a text of at most 6 such pieces yields exactly 100.
\<close>

theorem C3_frame_count:
  assumes "\<not> signal_aborted ctrls sig"
  shows "c_error (collect_all (collect_start ctrls t text sig)) = None \<and>
         as_pc (c_stream (collect_all (collect_start ctrls t text sig))) = Completed \<and>
         int (length (c_chunks (collect_all (collect_start ctrls t text sig)))) =
           \<lfloor>max 2 ((of_nat (words text) :: rat) / 3) * 1000 / 20\<rfloor> \<and>
         (\<forall>f\<in>set (c_chunks (collect_all (collect_start ctrls t text sig))). length f = 640) \<and>
         words text = Suc (length (filter (\<lambda>c. c = CHR '' '') text)) \<and>
         (words text \<le> 6 \<longrightarrow>
            length (c_chunks (collect_all (collect_start ctrls t text sig))) = 100)"
  using collect_all_chunks [OF assms, of t "text"] totalFrames_eq [of "text"] totalFrames_six [of "text"]
  by (simp add: words_def length_split_on)

theorem C3_frame_count_witness:
  "\<not> signal_aborted [False] (Some 0) \<and>
   length (c_chunks (collect_all (collect_start [False] new_FakeTTS ''one two three four five six'' (Some 0)))) = 100 \<and>
   list_all (\<lambda>f. length f = 640)
     (c_chunks (collect_all (collect_start [False] new_FakeTTS ''one two three four five six'' (Some 0))))"
  using C3_frame_count [of "[False]" "Some 0" new_FakeTTS "''one two three four five six''"]
  by (simp add: signal_aborted_def list_all_iff)

text \<open>
  C3 as stated fails for a reply of seven words: the stream yields 116 frames, where the
  ceiling of \<open>max(2, 7/3) * 1000 / 20\<close> is 117.
\<close>

theorem C3_ceil_counterexample:
  "words ''a b c d e f g'' = 7 \<and>
   length (c_chunks (collect_all (collect_start [False] new_FakeTTS ''a b c d e f g'' (Some 0)))) = 116 \<and>
   \<lceil>max 2 ((7::rat) / 3) * 1000 / 20\<rceil> = 117"
proof -
  have na: "\<not> signal_aborted [False] (Some 0)" by (simp add: signal_aborted_def)
  have w: "words ''a b c d e f g'' = 7" by (simp add: words_def)
  have fl: "\<lfloor>max 2 ((7::rat) / 3) * 1000 / 20\<rfloor> = 116" by (simp add: floor_eq_iff)
  have ce: "\<lceil>max 2 ((7::rat) / 3) * 1000 / 20\<rceil> = 117" by (simp add: ceiling_eq_iff)
  from totalFrames_eq [of "''a b c d e f g''"] w fl
  have "totalFrames ''a b c d e f g'' = 116" by simp
  with collect_all_chunks [OF na, of new_FakeTTS "''a b c d e f g''"] w ce show ?thesis
    by simp
qed


subsection \<open>Cancellation of the synthesizer's stream\<close>

lemma stream_next_aborted:
  assumes "signal_aborted ctrls (as_signal st)" "as_pc st = NotStarted \<or> as_pc st = Yielded"
  shows "\<exists>st'. stream_next ctrls t st = (Inr st', t) \<and> as_pc st' = Completed \<and>
           as_signal st' = as_signal st \<and> as_text st' = as_text st"
  using assms by (auto simp: stream_next_def stream_loop_head_def)

lemma signal_aborted_abort:
  "h < length ctrls \<Longrightarrow> signal_aborted (abort ctrls h) (Some h)"
  by (simp add: signal_aborted_def abort_def)

lemma signal_aborted_mono:
  "signal_aborted ctrls sig \<Longrightarrow> signal_aborted (abort ctrls h) sig"
  by (cases sig; cases "h < length ctrls") (auto simp: signal_aborted_def abort_def nth_list_update)

text \<open>After the trip, a collector whose generator holds no frame never changes what it has collected.\<close>

lemma collect_step_aborted_idle:
  assumes "signal_aborted (c_ctrls c) (as_signal (c_stream c))"
      and "\<forall>f. as_pc (c_stream c) \<noteq> InDelay f"
  shows "c_chunks (collect_step c ev) = c_chunks c \<and> c_tts (collect_step c ev) = c_tts c \<and>
         c_error (collect_step c ev) = c_error c \<and>
         signal_aborted (c_ctrls (collect_step c ev)) (as_signal (c_stream (collect_step c ev))) \<and>
         (\<forall>f. as_pc (c_stream (collect_step c ev)) \<noteq> InDelay f)"
  using assms
  by (cases ev) (auto simp: collect_step_def stream_wake_def signal_aborted_mono
      split: option.splits stream_pc.splits)

lemma collect_run_aborted_idle:
  assumes "signal_aborted (c_ctrls c) (as_signal (c_stream c))"
      and "\<forall>f. as_pc (c_stream c) \<noteq> InDelay f"
  shows "c_chunks (collect_run c evs) = c_chunks c \<and> c_tts (collect_run c evs) = c_tts c \<and>
         c_error (collect_run c evs) = c_error c"
  using assms
proof (induction evs arbitrary: c)
  case Nil
  then show ?case by (simp add: collect_run_def)
next
  case (Cons ev evs)
  from collect_step_aborted_idle [OF Cons.prems, of ev] Cons.IH [of "collect_step c ev"]
  show ?case by (simp add: collect_run_def)
qed

lemma collect_step_aborted_Timer:
  assumes "signal_aborted (c_ctrls c) (as_signal (c_stream c))"
      and "as_pc (c_stream c) = InDelay f"
  shows "c_chunks (collect_step c Timer) = c_chunks c @ [f] \<and>
         c_tts (collect_step c Timer) = c_tts c \<and>
         c_error (collect_step c Timer) = c_error c \<and>
         signal_aborted (c_ctrls (collect_step c Timer)) (as_signal (c_stream (collect_step c Timer))) \<and>
         as_pc (c_stream (collect_step c Timer)) = Completed"
  using assms
  by (auto simp: collect_step_def stream_wake_def collect_pull_def stream_next_def
      stream_loop_head_def)

lemma collect_step_aborted_Abort:
  assumes "signal_aborted (c_ctrls c) (as_signal (c_stream c))"
  shows "c_chunks (collect_step c Abort) = c_chunks c \<and>
         c_tts (collect_step c Abort) = c_tts c \<and>
         c_error (collect_step c Abort) = c_error c \<and>
         signal_aborted (c_ctrls (collect_step c Abort)) (as_signal (c_stream (collect_step c Abort))) \<and>
         c_stream (collect_step c Abort) = c_stream c"
  using assms
  by (auto simp: collect_step_def signal_aborted_mono split: option.splits)

lemma collect_run_aborted_pending:
  assumes "signal_aborted (c_ctrls c) (as_signal (c_stream c))"
      and "as_pc (c_stream c) = InDelay f"
  shows "c_chunks (collect_run c evs) = c_chunks c @ (if Timer \<in> set evs then [f] else []) \<and>
         c_tts (collect_run c evs) = c_tts c \<and> c_error (collect_run c evs) = c_error c"
  using assms
proof (induction evs arbitrary: c)
  case Nil
  then show ?case by (simp add: collect_run_def)
next
  case (Cons ev evs)
  show ?case
  proof (cases ev)
    case Timer
    from collect_step_aborted_Timer [OF Cons.prems]
    have st: "c_chunks (collect_step c Timer) = c_chunks c @ [f]"
      "c_tts (collect_step c Timer) = c_tts c" "c_error (collect_step c Timer) = c_error c"
      "signal_aborted (c_ctrls (collect_step c Timer)) (as_signal (c_stream (collect_step c Timer)))"
      "as_pc (c_stream (collect_step c Timer)) = Completed" by simp_all
    from st(5) have "\<forall>g. as_pc (c_stream (collect_step c Timer)) \<noteq> InDelay g" by simp
    from collect_run_aborted_idle [OF st(4) this, of evs] st Timer
    show ?thesis by (simp add: collect_run_def)
  next
    case Abort
    from collect_step_aborted_Abort [OF Cons.prems(1)] Cons.prems(2)
    have eq: "c_stream (collect_step c Abort) = c_stream c" by simp
    from collect_step_aborted_Abort [OF Cons.prems(1)] Cons.prems(2) eq
    have "signal_aborted (c_ctrls (collect_step c Abort)) (as_signal (c_stream (collect_step c Abort)))"
      "as_pc (c_stream (collect_step c Abort)) = InDelay f"
      "c_chunks (collect_step c Abort) = c_chunks c" "c_tts (collect_step c Abort) = c_tts c"
      "c_error (collect_step c Abort) = c_error c" by simp_all
    with Cons.IH [of "collect_step c Abort"] Abort show ?thesis by (simp add: collect_run_def)
  qed
qed



lemma collect_run_Abort:
  assumes "as_signal (c_stream c) = Some h" "h < length (c_ctrls c)"
  shows "c_chunks (collect_run c (Abort # evs)) =
           c_chunks c @ (case as_pc (c_stream c) of
                           InDelay f \<Rightarrow> if Timer \<in> set evs then [f] else []
                         | _ \<Rightarrow> []) \<and>
         c_tts (collect_run c (Abort # evs)) = c_tts c \<and>
         c_error (collect_run c (Abort # evs)) = c_error c"
proof -
  let ?c1 = "collect_step c Abort"
  from assms have c1: "?c1 = c\<lparr>c_ctrls := abort (c_ctrls c) h\<rparr>"
    by (simp add: collect_step_def)
  from assms have ab: "signal_aborted (c_ctrls ?c1) (as_signal (c_stream ?c1))"
    by (simp add: c1 signal_aborted_abort)
  have run: "collect_run c (Abort # evs) = collect_run ?c1 evs" by (simp add: collect_run_def)
  show ?thesis
  proof (cases "\<exists>f. as_pc (c_stream c) = InDelay f")
    case True
    then obtain f where f: "as_pc (c_stream c) = InDelay f" by blast
    then have "as_pc (c_stream ?c1) = InDelay f" by (simp add: c1)
    from collect_run_aborted_pending [OF ab this, of evs] f show ?thesis
      by (simp add: run) (simp add: c1)
  next
    case False
    then have "\<forall>f. as_pc (c_stream ?c1) \<noteq> InDelay f" by (simp add: c1)
    from collect_run_aborted_idle [OF ab this, of evs] False show ?thesis
      by (cases "as_pc (c_stream c)") (simp_all add: run, simp_all add: c1)
  qed
qed

lemma send_loop_chunks:
  "\<exists>chunks. fst (send_loop samples i src cnt) = src @ chunks \<and> concat chunks = drop i samples"
proof (induction samples i src cnt rule: send_loop.induct)
  case (1 samples i src cnt)
  show ?case
  proof (cases "i < length samples")
    case True
    let ?chunk = "drop i (take (min (i + CHUNK_SIZE) (length samples)) samples)"
    let ?cnt = "if cnt < 6 then cnt + 1 else cnt"
    from "1.IH" [OF True refl refl] obtain chunks where
      c: "fst (send_loop samples (i + CHUNK_SIZE) (src @ [?chunk]) ?cnt) = (src @ [?chunk]) @ chunks"
         "concat chunks = drop (i + CHUNK_SIZE) samples" by blast
    have "?chunk @ drop (i + CHUNK_SIZE) samples = drop i samples"
    proof (cases "i + CHUNK_SIZE \<le> length samples")
      case True
      then have "?chunk = take CHUNK_SIZE (drop i samples)"
        by (simp add: min_def drop_take)
      moreover have "drop (i + CHUNK_SIZE) samples = drop CHUNK_SIZE (drop i samples)"
        by (simp add: add.commute)
      ultimately show ?thesis by (simp only: append_take_drop_id)
    next
      case False
      then show ?thesis by (simp add: min_def)
    qed
    with c have "concat (?chunk # chunks) = drop i samples" by simp
    moreover from True c(1) have "fst (send_loop samples i src cnt) = src @ (?chunk # chunks)"
      by (subst send_loop.simps) (simp add: Let_def)
    ultimately show ?thesis by blast
  next
    case False
    then have "fst (send_loop samples i src cnt) = src @ []" by (subst send_loop.simps) simp
    with False show ?thesis by (intro exI [of _ "[]"]) simp
  qed
qed

lemma sendAudio_appends:
  assumes "audioSource ah = Some src"
  shows "\<exists>chunks. audioSource (snd (sendAudio ah samples)) = Some (src @ chunks) \<and>
           concat chunks = samples"
  using assms send_loop_chunks [of samples 0 src "sentDebugCount ah"]
  by (auto simp: sendAudio_def case_prod_beta)

lemma Int16Array_of_length: "length (Int16Array_of buf) = length buf div 2"
  by (induction buf rule: Int16Array_of.induct) simp_all

lemma generateResponse_resume_aborted:
  assumes "signal_aborted (controllers s) (Some (r_abortSignal r))"
      and "as_pc (r_stream r) = InDelay g"
  shows "snd (generateResponse_resume s r) = None \<and>
         tts (fst (generateResponse_resume s r)) = tts s \<and>
         stateMachine (fst (generateResponse_resume s r)) = stateMachine s \<and>
         audioHandler (fst (generateResponse_resume s r)) =
           (case audioHandler s of
              None \<Rightarrow> None
            | Some ah \<Rightarrow> Some (snd (sendAudio ah (Int16Array_of g))))"
  using assms
  by (auto simp: generateResponse_resume_def stream_wake_def Let_def sendAudioToBrowser_def
      s_logEvent_def tick_def split: option.splits)

text \<open>
  C2, as the code has it. The generator checks the flag before it produces a frame:
  resumed at a frame boundary (before its first statement, or after a \<open>yield\<close>) with the
  flag set, it returns at once, producing and yielding no frame, without error. It makes
  no check while it waits in its pacing delay: the frame produced before the trip is
  yielded when the delay ends. So for every state of a collecting consumer and every
  sequence of timers and aborts that follows a trip, the frames emitted after the trip
  are at most the one frame that was waiting in the delay when the trip came, no frame is
  produced after the trip (the synthesizer is left as it was) and no error arises. In
  \<open>generateResponse\<close>, an activation resumed with its signal aborted first sends the frame
  that was waiting (the audio handler of the session is the one \<open>sendAudio\<close> returns for
  the samples of that frame: with an audio source, the source receives these samples,
  in order, after what it had received), and only then checks the flag and returns, without
  calling the generator again and without a transition.
\<close>

theorem C2_cancel_at_frame_boundary:
  "(\<forall>ctrls t st. signal_aborted ctrls (as_signal st) \<longrightarrow>
      (as_pc st = NotStarted \<or> as_pc st = Yielded) \<longrightarrow>
      (\<exists>st'. stream_next ctrls t st = (Inr st', t) \<and> as_pc st' = Completed)) \<and>
   (\<forall>c h evs. as_signal (c_stream c) = Some h \<longrightarrow> h < length (c_ctrls c) \<longrightarrow>
      c_chunks (collect_run c (Abort # evs)) =
        c_chunks c @ (case as_pc (c_stream c) of
                        InDelay f \<Rightarrow> if Timer \<in> set evs then [f] else []
                      | _ \<Rightarrow> []) \<and>
      c_tts (collect_run c (Abort # evs)) = c_tts c \<and>
      c_error (collect_run c (Abort # evs)) = c_error c) \<and>
   (\<forall>s r g. signal_aborted (controllers s) (Some (r_abortSignal r)) \<longrightarrow>
      as_pc (r_stream r) = InDelay g \<longrightarrow>
      snd (generateResponse_resume s r) = None \<and>
      tts (fst (generateResponse_resume s r)) = tts s \<and>
      stateMachine (fst (generateResponse_resume s r)) = stateMachine s \<and>
      audioHandler (fst (generateResponse_resume s r)) =
        (case audioHandler s of
           None \<Rightarrow> None
         | Some ah \<Rightarrow> Some (snd (sendAudio ah (Int16Array_of g)))) \<and>
      (\<forall>ah src. audioHandler s = Some ah \<longrightarrow> audioSource ah = Some src \<longrightarrow>
         (\<exists>ah' chunks. audioHandler (fst (generateResponse_resume s r)) = Some ah' \<and>
            audioSource ah' = Some (src @ chunks) \<and> concat chunks = Int16Array_of g)))"
proof (intro conjI allI impI)
  fix ctrls t and st :: AudioStream
  assume "signal_aborted ctrls (as_signal st)" "as_pc st = NotStarted \<or> as_pc st = Yielded"
  from stream_next_aborted [OF this, of t]
  show "\<exists>st'. stream_next ctrls t st = (Inr st', t) \<and> as_pc st' = Completed" by blast
next
  fix c :: Collector and h evs
  assume a: "as_signal (c_stream c) = Some h" "h < length (c_ctrls c)"
  from collect_run_Abort [OF a, of evs]
  show "c_chunks (collect_run c (Abort # evs)) =
        c_chunks c @ (case as_pc (c_stream c) of
                        InDelay f \<Rightarrow> if Timer \<in> set evs then [f] else []
                      | _ \<Rightarrow> [])"
    and "c_tts (collect_run c (Abort # evs)) = c_tts c"
    and "c_error (collect_run c (Abort # evs)) = c_error c" by simp_all
next
  fix s :: Session and r :: Reply and g
  assume a: "signal_aborted (controllers s) (Some (r_abortSignal r))" "as_pc (r_stream r) = InDelay g"
  from generateResponse_resume_aborted [OF a]
  show "snd (generateResponse_resume s r) = None"
    and "tts (fst (generateResponse_resume s r)) = tts s"
    and "stateMachine (fst (generateResponse_resume s r)) = stateMachine s"
    and h: "audioHandler (fst (generateResponse_resume s r)) =
        (case audioHandler s of
           None \<Rightarrow> None
         | Some ah \<Rightarrow> Some (snd (sendAudio ah (Int16Array_of g))))" by simp_all
  fix ah :: WebRTCAudioHandler and src
  assume "audioHandler s = Some ah" "audioSource ah = Some src"
  with h sendAudio_appends [of ah src "Int16Array_of g"]
  show "\<exists>ah' chunks. audioHandler (fst (generateResponse_resume s r)) = Some ah' \<and>
            audioSource ah' = Some (src @ chunks) \<and> concat chunks = Int16Array_of g"
    by auto
qed

lemma collect_start_pending:
  "\<exists>f. as_pc (c_stream (collect_start [False] t ''hi'' (Some 0))) = InDelay f \<and>
       c_chunks (collect_start [False] t ''hi'' (Some 0)) = [] \<and>
       as_signal (c_stream (collect_start [False] t ''hi'' (Some 0))) = Some 0 \<and>
       c_ctrls (collect_start [False] t ''hi'' (Some 0)) = [False]"
proof -
  have na: "\<not> signal_aborted [False] (Some 0)" by (simp add: signal_aborted_def)
  have tot: "0 < totalFrames ''hi''"
    by (simp add: totalFrames_six words_def)
  let ?st = "(generateAudioStream ''hi'' (Some 0))\<lparr>as_frameIndex := 0\<rparr>"
  from na tot obtain f t' where
    "stream_loop_head [False] t ?st = (Inr (?st\<lparr>as_pc := InDelay f\<rparr>), t')"
    using stream_loop_head_live [of "[False]" ?st t] by (auto simp: generateAudioStream_def)
  then show ?thesis
    by (simp add: collect_start_def collect_pull_def stream_next_def generateAudioStream_def)
qed

text \<open>
  C2 as stated fails: the handle is tripped while the generator waits in its first delay,
  nothing emitted so far; when the delay ends, the producer emits a frame.
\<close>

theorem C2_frame_after_trip_counterexample:
  "c_chunks (collect_start [False] new_FakeTTS ''hi'' (Some 0)) = [] \<and>
   length (c_chunks (collect_run (collect_start [False] new_FakeTTS ''hi'' (Some 0)) [Abort, Timer])) = 1"
proof -
  from collect_start_pending [of new_FakeTTS] obtain f where
    f: "as_pc (c_stream (collect_start [False] new_FakeTTS ''hi'' (Some 0))) = InDelay f"
    and ch: "c_chunks (collect_start [False] new_FakeTTS ''hi'' (Some 0)) = []"
    and sg: "as_signal (c_stream (collect_start [False] new_FakeTTS ''hi'' (Some 0))) = Some 0"
    and ct: "c_ctrls (collect_start [False] new_FakeTTS ''hi'' (Some 0)) = [False]" by blast
  from ct have "0 < length (c_ctrls (collect_start [False] new_FakeTTS ''hi'' (Some 0)))" by simp
  from collect_run_Abort [OF sg this, of "[Timer]"] f ch show ?thesis by simp
qed

theorem C2_cancel_witness:
  "(\<exists>st'. stream_next [True] new_FakeTTS
             \<lparr>as_text = ''hi'', as_signal = Some 0, as_frameIndex = 3, as_pc = Yielded\<rparr>
           = (Inr st', new_FakeTTS) \<and> as_pc st' = Completed) \<and>
   length (c_chunks (collect_run (collect_start [False] new_FakeTTS ''hi'' (Some 0))
                       [Abort, Timer, Timer, Timer])) = 1 \<and>
   audioHandler (test_connected\<lparr>controllers := [True]\<rparr>) = Some test_handler \<and>
   audioSource test_handler = Some [] \<and>
   snd (generateResponse_resume (test_connected\<lparr>controllers := [True]\<rparr>)
          \<lparr>r_ttsStartTime = 1000, r_firstChunk = False, r_chunkCount = 1, r_abortSignal = 0,
           r_stream = \<lparr>as_text = ''hi'', as_signal = Some 0, as_frameIndex = 1,
                       as_pc = InDelay test_voiced_frame\<rparr>\<rparr>) = None \<and>
   (\<exists>ah' chunks.
      audioHandler (fst (generateResponse_resume (test_connected\<lparr>controllers := [True]\<rparr>)
          \<lparr>r_ttsStartTime = 1000, r_firstChunk = False, r_chunkCount = 1, r_abortSignal = 0,
           r_stream = \<lparr>as_text = ''hi'', as_signal = Some 0, as_frameIndex = 1,
                       as_pc = InDelay test_voiced_frame\<rparr>\<rparr>)) = Some ah' \<and>
      audioSource ah' = Some chunks \<and> length (concat chunks) = 320)"
proof -
  from collect_start_pending [of new_FakeTTS] obtain f where
    f: "as_pc (c_stream (collect_start [False] new_FakeTTS ''hi'' (Some 0))) = InDelay f"
    and ch: "c_chunks (collect_start [False] new_FakeTTS ''hi'' (Some 0)) = []"
    and sg: "as_signal (c_stream (collect_start [False] new_FakeTTS ''hi'' (Some 0))) = Some 0"
    and ct: "c_ctrls (collect_start [False] new_FakeTTS ''hi'' (Some 0)) = [False]" by blast
  let ?s = "test_connected\<lparr>controllers := [True]\<rparr>"
  let ?r = "\<lparr>r_ttsStartTime = 1000, r_firstChunk = False, r_chunkCount = 1, r_abortSignal = 0,
           r_stream = \<lparr>as_text = ''hi'', as_signal = Some 0, as_frameIndex = 1,
                       as_pc = InDelay test_voiced_frame\<rparr>\<rparr>"
  have ah: "audioHandler ?s = Some test_handler"
    by (simp add: test_connected_def webrtc_connected_def start_def new_Session_def Let_def
        s_logEvent_def tick_def s_transition_def transition_def startAudioProcessing_def
        new_StateMachine_def isValidTransition_def)
  have src: "audioSource test_handler = Some []" by (simp add: test_handler_def)
  have ab: "signal_aborted (controllers ?s) (Some (r_abortSignal ?r))"
    by (simp add: signal_aborted_def)
  have pc: "as_pc (r_stream ?r) = InDelay test_voiced_frame" by simp
  have len: "length (Int16Array_of test_voiced_frame) = 320"
    by (simp add: Int16Array_of_length test_voiced_frame_def length_concat sum_list_replicate)
  note main = C2_cancel_at_frame_boundary
  from main have 1: "\<exists>st'. stream_next [True] new_FakeTTS
             \<lparr>as_text = ''hi'', as_signal = Some 0, as_frameIndex = 3, as_pc = Yielded\<rparr>
           = (Inr st', new_FakeTTS) \<and> as_pc st' = Completed"
    by (simp add: signal_aborted_def)
  from main sg ct f ch have 2: "length (c_chunks (collect_run (collect_start [False] new_FakeTTS ''hi'' (Some 0))
                       [Abort, Timer, Timer, Timer])) = 1"
    by simp
  from main ab pc have 3: "snd (generateResponse_resume ?s ?r) = None" by blast
  from main ab pc ah src obtain ah' chunks where
    "audioHandler (fst (generateResponse_resume ?s ?r)) = Some ah'"
    "audioSource ah' = Some ([] @ chunks)" "concat chunks = Int16Array_of test_voiced_frame"
    by blast
  with len have 4: "\<exists>ah' chunks. audioHandler (fst (generateResponse_resume ?s ?r)) = Some ah' \<and>
      audioSource ah' = Some chunks \<and> length (concat chunks) = 320" by auto
  from 1 2 ah src 3 4 show ?thesis by blast
qed


subsection \<open>The recognizer\<close>

lemma nth_concat_replicate_pair:
  "i < n \<Longrightarrow> concat (replicate n [a, b]) ! (2 * i) = a \<and> concat (replicate n [a, b]) ! Suc (2 * i) = b"
proof (induction n arbitrary: i)
  case 0
  then show ?case by simp
next
  case (Suc n)
  show ?case
  proof (cases i)
    case 0
    then show ?thesis by simp
  next
    case (Suc j)
    with Suc.prems have "j < n" by simp
    from Suc.IH [OF this] Suc show ?thesis by simp
  qed
qed

lemma length_concat_replicate_pair: "length (concat (replicate n [a, b])) = 2 * n"
  by (induction n) auto

lemma readInt16LE_pair:
  "i < n \<Longrightarrow> readInt16LE (concat (replicate n [lo, hi])) (int i * 2) = Inr (sint (word_cat hi lo :: 16 word))"
  using nth_concat_replicate_pair [of i n lo hi]
  by (simp add: readInt16LE_def length_concat_replicate_pair nat_add_distrib nat_mult_distrib mult.commute)

lemma rms_loop_pair:
  "\<forall>i\<in>set is. i < n \<Longrightarrow>
   rms_loop (concat (replicate n [lo, hi])) is acc =
     Inr (acc + real (length is) * (real_of_int (sint (word_cat hi lo :: 16 word)) / 32768)\<^sup>2)"
  by (induction "is" arbitrary: acc) (simp_all add: readInt16LE_pair Let_def power2_eq_square algebra_simps)

lemma sqrt_mean_const:
  "0 < n \<Longrightarrow> sqrt ((0 + real n * (x / 32768)\<^sup>2) / real_of_rat (rat_of_nat (2 * n) / 2)) = \<bar>x\<bar> / 32768"
proof -
  assume n: "0 < n"
  have "real_of_rat (rat_of_nat (2 * n) / 2) = real n" by (simp add: of_rat_divide)
  moreover from n have "(0 + real n * (x / 32768)\<^sup>2) / real n = (x / 32768)\<^sup>2" by simp
  ultimately have "(0 + real n * (x / 32768)\<^sup>2) / real_of_rat (rat_of_nat (2 * n) / 2) = (x / 32768)\<^sup>2"
    by (simp only:)
  then show ?thesis by (simp only: real_sqrt_abs abs_divide abs_numeral)
qed

lemma calculateRMS_pair:
  assumes n: "0 < n"
  shows "calculateRMS (concat (replicate n [lo, hi])) =
     Inr (\<bar>real_of_int (sint (word_cat hi lo :: 16 word))\<bar> / 32768)"
proof -
  have fr: "for_range ((of_nat (2 * n) :: rat) / 2) = [0..<n]"
    by (simp add: for_range_def)
  have loop: "rms_loop (concat (replicate n [lo, hi])) [0..<n] 0 =
     Inr (0 + real (length [0..<n]) * (real_of_int (sint (word_cat hi lo :: 16 word)) / 32768)\<^sup>2)"
    by (rule rms_loop_pair) simp
  then have loop': "rms_loop (concat (replicate n [lo, hi])) [0..<n] 0 =
     Inr (0 + real n * (real_of_int (sint (word_cat hi lo :: 16 word)) / 32768)\<^sup>2)"
    by (simp only: length_upt diff_zero)
  show ?thesis
    unfolding calculateRMS_def Let_def length_concat_replicate_pair fr loop' sum.case
    by (simp only: sqrt_mean_const [OF n])
qed

lemma calculateRMS_voiced: "calculateRMS test_voiced_frame = Inr (1 / 2)"
  by (simp add: test_voiced_frame_def calculateRMS_pair word_cat_eq)

lemma calculateRMS_silent: "calculateRMS test_silent_frame = Inr 0"
  by (simp add: test_silent_frame_def calculateRMS_pair word_cat_eq)

lemma processFrames_silent:
  assumes "\<not> isProcessing s"
      and "\<forall>x\<in>set sil. \<exists>rms. calculateRMS (fst x) = Inr rms \<and> rms \<le> VOICE_THRESHOLD"
  shows "processFrames s (sil @ rest) =
           (map (\<lambda>x. Inr None) sil @ fst (processFrames s rest), snd (processFrames s rest))"
  using assms(2)
proof (induction sil)
  case Nil
  then show ?case by simp
next
  case (Cons x sil)
  obtain frame now where x: "x = (frame, now)" by (cases x)
  from Cons.prems x obtain rms where "calculateRMS frame = Inr rms" "rms \<le> VOICE_THRESHOLD" by auto
  with assms(1) have "processFrame s frame now = (Inr None, s)" by (simp add: processFrame_def)
  with Cons x show ?case by (simp add: Let_def split: prod.splits)
qed

text \<open>
  C10. For every recognizer state in which \<open>isProcessing\<close> is false, and every frame whose
  RMS does not exceed \<open>VOICE_THRESHOLD\<close>, \<open>processFrame\<close> returns \<open>null\<close> and leaves the
  whole recognizer state as it was, the count of voiced frames included. So any number of
  such frames is invisible to the frames that follow: the voiced frames counted before the
  silence still count towards \<open>VOICE_START_FRAMES\<close>.
\<close>

theorem C10_silent_frame_when_idle:
  assumes "\<not> isProcessing s"
  shows "(\<forall>frame rms now. calculateRMS frame = Inr rms \<longrightarrow> rms \<le> VOICE_THRESHOLD \<longrightarrow>
            processFrame s frame now = (Inr None, s)) \<and>
         (\<forall>sil rest.
            (\<forall>x\<in>set sil. \<exists>rms. calculateRMS (fst x) = Inr rms \<and> rms \<le> VOICE_THRESHOLD) \<longrightarrow>
            processFrames s (sil @ rest) =
              (map (\<lambda>x. Inr None) sil @ fst (processFrames s rest), snd (processFrames s rest)))"
  using assms processFrames_silent [OF assms] by (simp add: processFrame_def)

lemma processFrame_voiced:
  "processFrame s test_voiced_frame now =
     (let s1 = s\<lparr>voiceFrames := voiceFrames s + 1\<rparr>;
                 s2 = s1\<lparr>silenceFrames := 0\<rparr>
             in if voiceFrames s2 = VOICE_START_FRAMES \<and> \<not> isProcessing s2 then
                  (let s3 = s2\<lparr>isProcessing := True\<rparr>
                   in case getNextResponse s3 of
                        None \<Rightarrow> (Inl TypeError, s3)
                      | Some r \<Rightarrow>
                         (let s4 = s3\<lparr>partialText := substring r 0 3\<rparr>
                          in (Inr (Some \<lparr>ev_type = Partial, ev_text = Some (partialText s4),
                                         ev_timestamp = now\<rparr>), s4)))
                else if isProcessing s2 \<and> voiceFrames s2 mod 10 = 0 then
                  (case getNextResponse s2 of
                     None \<Rightarrow> (Inl TypeError, s2)
                   | Some fullText \<Rightarrow>
                      (let progress = min (int (voiceFrames s2) - int VOICE_START_FRAMES)
                                          (int (length fullText));
                           s3 = s2\<lparr>partialText := substring fullText 0 progress\<rparr>
                       in (Inr (Some \<lparr>ev_type = Partial, ev_text = Some (partialText s3),
                                      ev_timestamp = now\<rparr>), s3)))
                else (Inr None, s2))"
  by (simp add: processFrame_def calculateRMS_voiced VOICE_THRESHOLD_def)

lemma processFrames_voiced_idle:
  "\<not> isProcessing s \<Longrightarrow> voiceFrames s + n < 25 \<Longrightarrow> 0 < n \<Longrightarrow>
   processFrames s (replicate n (test_voiced_frame, now)) =
     (replicate n (Inr None), s\<lparr>voiceFrames := voiceFrames s + n, silenceFrames := 0\<rparr>)"
proof (induction n arbitrary: s)
  case 0
  then show ?case by simp
next
  case (Suc n)
  let ?s1 = "s\<lparr>voiceFrames := voiceFrames s + 1, silenceFrames := 0\<rparr>"
  from Suc.prems have step: "processFrame s test_voiced_frame now = (Inr None, ?s1)"
    by (simp add: processFrame_voiced VOICE_START_FRAMES_def Let_def)
  show ?case
  proof (cases n)
    case 0
    with step show ?thesis by simp
  next
    case (Suc m)
    with Suc.prems have "\<not> isProcessing ?s1" "voiceFrames ?s1 + n < 25" "0 < n" by simp_all
    from Suc.IH [OF this] step show ?thesis by simp
  qed
qed



lemma processFrame_silent:
  "processFrame s test_silent_frame now =
     (if isProcessing s then
            (let s1 = s\<lparr>silenceFrames := silenceFrames s + 1\<rparr>
             in if SILENCE_END_FRAMES \<le> silenceFrames s1 then
                  (let finalText = getNextResponse s1;
                       s2 = s1\<lparr>responseIndex := (responseIndex s1 + 1) mod length responses\<rparr>;
                       s3 = stt_reset s2
                   in (Inr (Some \<lparr>ev_type = Final, ev_text = finalText, ev_timestamp = now\<rparr>), s3))
                else (Inr None, s1))
          else (Inr None, s))"
  by (simp add: processFrame_def calculateRMS_silent VOICE_THRESHOLD_def)

lemma test_s24:
  "snd (processFrames new_FakeSTT (replicate 24 (test_voiced_frame, 0))) =
     new_FakeSTT\<lparr>voiceFrames := 24, silenceFrames := 0\<rparr>"
  using processFrames_voiced_idle [of new_FakeSTT 24 0] by (simp add: new_FakeSTT_def)

theorem C10_silent_frame_witness:
  "\<not> isProcessing (snd (processFrames new_FakeSTT (replicate 24 (test_voiced_frame, 0)))) \<and>
   processFrame (snd (processFrames new_FakeSTT (replicate 24 (test_voiced_frame, 0))))
      test_silent_frame 1 =
     (Inr None, snd (processFrames new_FakeSTT (replicate 24 (test_voiced_frame, 0)))) \<and>
   fst (processFrames (snd (processFrames new_FakeSTT (replicate 24 (test_voiced_frame, 0))))
      ([(test_silent_frame, 1), (test_silent_frame, 2), (test_silent_frame, 3)] @
       [(test_voiced_frame, 4)])) =
     [Inr None, Inr None, Inr None,
      Inr (Some \<lparr>ev_type = Partial, ev_text = Some ''hel'', ev_timestamp = 4\<rparr>)]"
proof -
  let ?s = "snd (processFrames new_FakeSTT (replicate 24 (test_voiced_frame, 0)))"
  have idle: "\<not> isProcessing ?s" unfolding test_s24 by (simp add: new_FakeSTT_def)
  have sil: "\<forall>x\<in>set [(test_silent_frame, 1::nat), (test_silent_frame, 2), (test_silent_frame, 3)].
               \<exists>rms. calculateRMS (fst x) = Inr rms \<and> rms \<le> VOICE_THRESHOLD"
    by (simp add: calculateRMS_silent VOICE_THRESHOLD_def)
  have last: "processFrames ?s [(test_voiced_frame, 4)] =
     ([Inr (Some \<lparr>ev_type = Partial, ev_text = Some ''hel'', ev_timestamp = 4\<rparr>)],
      new_FakeSTT\<lparr>voiceFrames := 25, silenceFrames := 0, isProcessing := True, partialText := ''hel''\<rparr>)"
    unfolding test_s24
    by (simp add: processFrame_voiced new_FakeSTT_def VOICE_START_FRAMES_def Let_def
        getNextResponse_def responses_def substring_def)
  from C10_silent_frame_when_idle [OF idle] calculateRMS_silent sil last
  show ?thesis
    by (simp add: VOICE_THRESHOLD_def idle)
qed



lemma responses_long: "i < length responses \<Longrightarrow> 5 \<le> length (responses ! i)"
proof -
  have "\<forall>r\<in>set responses. 5 \<le> length r" by (simp add: responses_def)
  then show "i < length responses \<Longrightarrow> 5 \<le> length (responses ! i)" by simp
qed

lemma substring_take: "0 \<le> k \<Longrightarrow> substring str 0 k = take (nat k) str"
  by (auto simp: substring_def Let_def min_def max_def)

lemma stt_inv_step:
  assumes inv: "stt_inv s prev" and step: "processFrame s frame now = (r, s')"
  shows "case r of
           Inr (Some e) \<Rightarrow>
             (\<exists>t. ev_text e = Some t \<and>
                (case ev_type e of
                   Partial \<Rightarrow> list_all (\<lambda>p. length p \<le> length t) prev \<and> stt_inv s' (prev @ [t])
                 | Final \<Rightarrow> prev \<noteq> [] \<and> list_all (\<lambda>p. prefix p t) prev \<and> stt_inv s' []))
         | _ \<Rightarrow> stt_inv s' prev"
proof (cases "calculateRMS frame")
  case (Inl e)
  with step inv show ?thesis by (auto simp: processFrame_def)
next
  case (Inr rms)
  from inv have idx: "responseIndex s < length responses" by (simp add: stt_inv_def)
  let ?resp = "responses ! responseIndex s"
  from idx have len: "5 \<le> length ?resp" by (rule responses_long)
  show ?thesis
  proof (cases "VOICE_THRESHOLD < rms")
    case voiced: True
    show ?thesis
    proof (cases "isProcessing s")
      case proc: True
      from inv proc obtain n where
        vf: "25 \<le> voiceFrames s" and n: "n \<le> max 3 (voiceFrames s - 25)"
        and pt: "partialText s = take n ?resp"
        and pv: "list_all (\<lambda>p. prefix p ?resp \<and> length p \<le> length (partialText s)) prev"
        by (auto simp: stt_inv_def)
      show ?thesis
      proof (cases "(voiceFrames s + 1) mod 10 = 0")
        case True
        with vf have v30: "30 \<le> voiceFrames s + 1" by presburger
        let ?t = "take (voiceFrames s + 1 - 25) ?resp"
        from v30 have prog: "substring ?resp 0 (min (int (voiceFrames s + 1) - int 25) (int (length ?resp)))
            = ?t"
          by (subst substring_take) (auto simp: min_def nat_diff_distrib)
        from n v30 have "n \<le> voiceFrames s + 1 - 25" by (simp add: max_def split: if_splits)
        with pt have le: "length (partialText s) \<le> length ?t" by simp
        from step Inr voiced proc True vf idx prog
        have r: "r = Inr (Some \<lparr>ev_type = Partial, ev_text = Some ?t, ev_timestamp = now\<rparr>)"
          and s': "s' = s\<lparr>voiceFrames := voiceFrames s + 1, silenceFrames := 0, partialText := ?t\<rparr>"
          by (auto simp: processFrame_def Let_def VOICE_START_FRAMES_def getNextResponse_def)
        from pv le have a: "list_all (\<lambda>p. length p \<le> length ?t) prev"
          by (auto simp: list_all_iff)
        from pv le idx vf proc v30 have b: "stt_inv s' (prev @ [?t])"
          by (auto simp: stt_inv_def s' list_all_iff take_is_prefix intro!: exI [of _ "voiceFrames s + 1 - 25"])
        from a b show ?thesis by (simp add: r)
      next
        case False
        from step Inr voiced proc False vf
        have r: "r = Inr None"
          and s': "s' = s\<lparr>voiceFrames := voiceFrames s + 1, silenceFrames := 0\<rparr>"
          by (auto simp: processFrame_def Let_def VOICE_START_FRAMES_def)
        from inv proc n pt pv vf idx have "stt_inv s' prev"
          by (auto simp: stt_inv_def s' intro!: exI [of _ n])
        then show ?thesis by (simp add: r)
      qed
    next
      case idle: False
      from inv idle have vf: "voiceFrames s < 25" and pe: "prev = []" by (simp_all add: stt_inv_def)
      show ?thesis
      proof (cases "voiceFrames s + 1 = 25")
        case True
        let ?t = "take 3 ?resp"
        from step Inr voiced idle True idx
        have r: "r = Inr (Some \<lparr>ev_type = Partial, ev_text = Some ?t, ev_timestamp = now\<rparr>)"
          and s': "s' = s\<lparr>voiceFrames := voiceFrames s + 1, silenceFrames := 0,
                          isProcessing := True, partialText := ?t\<rparr>"
          by (auto simp: processFrame_def Let_def VOICE_START_FRAMES_def getNextResponse_def
              substring_take)
        from idx True have "stt_inv s' [?t]"
          by (auto simp: stt_inv_def s' take_is_prefix intro!: exI [of _ 3])
        with pe show ?thesis by (simp add: r)
      next
        case False
        from step Inr voiced idle False
        have r: "r = Inr None"
          and s': "s' = s\<lparr>voiceFrames := voiceFrames s + 1, silenceFrames := 0\<rparr>"
          by (auto simp: processFrame_def Let_def VOICE_START_FRAMES_def)
        from inv idle False vf have "stt_inv s' prev" by (auto simp: stt_inv_def s')
        then show ?thesis by (simp add: r)
      qed
    qed
  next
    case silent: False
    show ?thesis
    proof (cases "isProcessing s")
      case proc: True
      show ?thesis
      proof (cases "SILENCE_END_FRAMES \<le> silenceFrames s + 1")
        case True
        from step Inr silent proc True idx
        have r: "r = Inr (Some \<lparr>ev_type = Final, ev_text = Some ?resp, ev_timestamp = now\<rparr>)"
          and s': "s' = stt_reset (s\<lparr>silenceFrames := silenceFrames s + 1,
                      responseIndex := (responseIndex s + 1) mod length responses\<rparr>)"
          by (auto simp: processFrame_def Let_def getNextResponse_def)
        have "0 < length responses" by (simp add: responses_def)
        then have "stt_inv s' []" by (simp add: stt_inv_def s' stt_reset_def)
        moreover from inv proc have "prev \<noteq> [] \<and> list_all (\<lambda>p. prefix p ?resp) prev"
          by (auto simp: stt_inv_def list_all_iff)
        ultimately show ?thesis by (simp add: r)
      next
        case False
        from step Inr silent proc False
        have r: "r = Inr None" and s': "s' = s\<lparr>silenceFrames := silenceFrames s + 1\<rparr>"
          by (auto simp: processFrame_def Let_def)
        from inv proc have "stt_inv s' prev" by (auto simp: stt_inv_def s')
        then show ?thesis by (simp add: r)
      qed
    next
      case False
      with step Inr silent inv show ?thesis by (auto simp: processFrame_def)
    qed
  qed
qed

lemma stt_inv_run:
  "stt_inv s prev \<Longrightarrow>
   utterances_ok prev (events_of (fst (processFrames s frames))) \<and>
   responseIndex (snd (processFrames s frames)) < length responses"
proof (induction frames arbitrary: s prev)
  case Nil
  then show ?case by (simp add: stt_inv_def)
next
  case (Cons x frames)
  obtain frame now where x: "x = (frame, now)" by (cases x)
  obtain r s' where step: "processFrame s frame now = (r, s')" by (cases "processFrame s frame now")
  note st = stt_inv_step [OF Cons.prems step]
  show ?case
  proof (cases r)
    case (Inl e)
    with st have "stt_inv s' prev" by simp
    from Cons.IH [OF this] x step Inl show ?thesis by (simp add: case_prod_beta)
  next
    case (Inr ev)
    show ?thesis
    proof (cases ev)
      case None
      with st Inr have "stt_inv s' prev" by simp
      from Cons.IH [OF this] x step Inr None show ?thesis by (simp add: case_prod_beta)
    next
      case (Some e)
      with st Inr obtain t where t: "ev_text e = Some t"
        and c: "case ev_type e of
                   Partial \<Rightarrow> list_all (\<lambda>p. length p \<le> length t) prev \<and> stt_inv s' (prev @ [t])
                 | Final \<Rightarrow> prev \<noteq> [] \<and> list_all (\<lambda>p. prefix p t) prev \<and> stt_inv s' []" by auto
      show ?thesis
      proof (cases "ev_type e")
        case Partial
        with c have "list_all (\<lambda>p. length p \<le> length t) prev" "stt_inv s' (prev @ [t])" by simp_all
        with Cons.IH [OF this(2)] x step Inr Some t Partial show ?thesis
          by (simp add: case_prod_beta)
      next
        case Final
        with c have "prev \<noteq> [] \<and> list_all (\<lambda>p. prefix p t) prev" "stt_inv s' []" by simp_all
        with Cons.IH [OF this(2)] x step Inr Some t Final show ?thesis
          by (simp add: case_prod_beta)
      qed
    qed
  qed
qed



lemma processFrames_append:
  "processFrames s (a @ b) =
     (fst (processFrames s a) @ fst (processFrames (snd (processFrames s a)) b),
      snd (processFrames (snd (processFrames s a)) b))"
  by (induction a arbitrary: s) (auto simp: case_prod_beta)

lemma events_of_append: "events_of (a @ b) = events_of a @ events_of b"
  by (induction a rule: events_of.induct) auto

lemma events_of_null: "events_of (replicate n (Inr None)) = []"
  by (induction n) auto

lemma processFrames_silent_wait:
  "isProcessing s \<Longrightarrow> silenceFrames s + n < 15 \<Longrightarrow>
   processFrames s (replicate n (test_silent_frame, now)) =
     (replicate n (Inr None), s\<lparr>silenceFrames := silenceFrames s + n\<rparr>)"
proof (induction n arbitrary: s)
  case 0
  then show ?case by simp
next
  case (Suc n)
  let ?s1 = "s\<lparr>silenceFrames := silenceFrames s + 1\<rparr>"
  from Suc.prems have step: "processFrame s test_silent_frame now = (Inr None, ?s1)"
    by (simp add: processFrame_silent SILENCE_END_FRAMES_def Let_def)
  from Suc.prems have "isProcessing ?s1" "silenceFrames ?s1 + n < 15" by simp_all
  from Suc.IH [OF this] step show ?case by simp
qed

lemma silence_ends_utterance:
  assumes "isProcessing s" and "silenceFrames s < 15"
      and "\<forall>x\<in>set sil. \<exists>rms. calculateRMS (fst x) = Inr rms \<and> rms \<le> VOICE_THRESHOLD"
      and "15 \<le> silenceFrames s + length sil"
  shows "\<exists>e es. events_of (fst (processFrames s sil)) = e # es \<and> ev_type e = Final"
  using assms
proof (induction sil arbitrary: s)
  case Nil
  then show ?case by simp
next
  case (Cons x sil)
  obtain frame now where x: "x = (frame, now)" by (cases x)
  from Cons.prems(3) x obtain rms where rms: "calculateRMS frame = Inr rms" "rms \<le> VOICE_THRESHOLD"
    by auto
  show ?case
  proof (cases "SILENCE_END_FRAMES \<le> silenceFrames s + 1")
    case True
    with Cons.prems(1) rms x show ?thesis
      by (simp add: processFrame_def Let_def case_prod_beta)
  next
    case False
    let ?s1 = "s\<lparr>silenceFrames := silenceFrames s + 1\<rparr>"
    from False Cons.prems(1) rms have step: "processFrame s frame now = (Inr None, ?s1)"
      by (simp add: processFrame_def Let_def)
    from False Cons.prems have "isProcessing ?s1" "silenceFrames ?s1 < 15"
      "\<forall>x\<in>set sil. \<exists>rms. calculateRMS (fst x) = Inr rms \<and> rms \<le> VOICE_THRESHOLD"
      "15 \<le> silenceFrames ?s1 + length sil"
      by (simp_all add: SILENCE_END_FRAMES_def)
    from Cons.IH [OF this] step x show ?thesis by (simp add: case_prod_beta)
  qed
qed

lemma stt_inv_reset: "responseIndex s < length responses \<Longrightarrow> stt_inv (stt_reset s) []"
  by (simp add: stt_inv_def stt_reset_def)

text \<open>
  C6. A recognizer whose response index is in range (as it is from construction on) is
  reset and then fed any frames, one by one. The events it emits, read as consecutive
  utterances, have the shape the specification asks for: within an utterance the texts of
  the Partials never get shorter, the utterance ends with one Final whose text has every
  Partial's text of the utterance as a prefix, and no Final comes without a Partial since
  the Final before it. And an utterance that is open does end: as soon as fifteen frames
  of silence in a row have been counted, the next event is a Final.
\<close>

theorem C6_utterance_events:
  "(\<forall>s frames. responseIndex s < length responses \<longrightarrow>
      utterances_ok [] (events_of (fst (processFrames (stt_reset s) frames))) \<and>
      responseIndex (snd (processFrames (stt_reset s) frames)) < length responses) \<and>
   (\<forall>s sil. isProcessing s \<longrightarrow> silenceFrames s < 15 \<longrightarrow>
      (\<forall>x\<in>set sil. \<exists>rms. calculateRMS (fst x) = Inr rms \<and> rms \<le> VOICE_THRESHOLD) \<longrightarrow>
      15 \<le> silenceFrames s + length sil \<longrightarrow>
      (\<exists>e es. events_of (fst (processFrames s sil)) = e # es \<and> ev_type e = Final))"
  using stt_inv_run [OF stt_inv_reset] silence_ends_utterance by blast

lemma test_utterance:
  "processFrames new_FakeSTT
     (replicate 24 (test_voiced_frame, 7) @
      [(test_voiced_frame, 8), (test_voiced_frame, 9), (test_voiced_frame, 10),
       (test_voiced_frame, 11), (test_voiced_frame, 12), (test_voiced_frame, 13)] @
      replicate 14 (test_silent_frame, 14) @ [(test_silent_frame, 15)]) =
   (replicate 24 (Inr None) @
    [Inr (Some \<lparr>ev_type = Partial, ev_text = Some ''hel'', ev_timestamp = 8\<rparr>),
     Inr None, Inr None, Inr None, Inr None,
     Inr (Some \<lparr>ev_type = Partial, ev_text = Some ''hello'', ev_timestamp = 13\<rparr>)] @
    replicate 14 (Inr None) @
    [Inr (Some \<lparr>ev_type = Final, ev_text = Some ''hello'', ev_timestamp = 15\<rparr>)],
    new_FakeSTT\<lparr>responseIndex := 1\<rparr>)"
proof -
  let ?s24 = "new_FakeSTT\<lparr>voiceFrames := 24, silenceFrames := 0\<rparr>"
  let ?s30 = "new_FakeSTT\<lparr>voiceFrames := 30, silenceFrames := 0, isProcessing := True,
                 partialText := ''hello''\<rparr>"
  let ?s44 = "?s30\<lparr>silenceFrames := 14\<rparr>"
  have a: "processFrames new_FakeSTT (replicate 24 (test_voiced_frame, 7)) =
             (replicate 24 (Inr None), ?s24)"
    using processFrames_voiced_idle [of new_FakeSTT 24 7] by (simp add: new_FakeSTT_def)
  have b: "processFrames ?s24
      [(test_voiced_frame, 8), (test_voiced_frame, 9), (test_voiced_frame, 10),
       (test_voiced_frame, 11), (test_voiced_frame, 12), (test_voiced_frame, 13)] =
     ([Inr (Some \<lparr>ev_type = Partial, ev_text = Some ''hel'', ev_timestamp = 8\<rparr>),
       Inr None, Inr None, Inr None, Inr None,
       Inr (Some \<lparr>ev_type = Partial, ev_text = Some ''hello'', ev_timestamp = 13\<rparr>)], ?s30)"
    by (simp add: processFrame_voiced new_FakeSTT_def VOICE_START_FRAMES_def Let_def
        getNextResponse_def responses_def substring_def)
  have c: "processFrames ?s30 (replicate 14 (test_silent_frame, 14)) = (replicate 14 (Inr None), ?s44)"
    using processFrames_silent_wait [of ?s30 14 14] by (simp add: new_FakeSTT_def)
  have d: "processFrames ?s44 [(test_silent_frame, 15)] =
     ([Inr (Some \<lparr>ev_type = Final, ev_text = Some ''hello'', ev_timestamp = 15\<rparr>)],
      new_FakeSTT\<lparr>responseIndex := 1\<rparr>)"
    by (simp add: processFrame_silent new_FakeSTT_def SILENCE_END_FRAMES_def Let_def
        getNextResponse_def responses_def stt_reset_def)
  show ?thesis
    by (simp only: processFrames_append a b c d fst_conv snd_conv)
qed

theorem C6_utterance_witness:
  "responseIndex new_FakeSTT < length responses \<and>
   events_of (fst (processFrames (stt_reset new_FakeSTT)
     (replicate 24 (test_voiced_frame, 7) @
      [(test_voiced_frame, 8), (test_voiced_frame, 9), (test_voiced_frame, 10),
       (test_voiced_frame, 11), (test_voiced_frame, 12), (test_voiced_frame, 13)] @
      replicate 14 (test_silent_frame, 14) @ [(test_silent_frame, 15)]))) =
     [\<lparr>ev_type = Partial, ev_text = Some ''hel'', ev_timestamp = 8\<rparr>,
      \<lparr>ev_type = Partial, ev_text = Some ''hello'', ev_timestamp = 13\<rparr>,
      \<lparr>ev_type = Final, ev_text = Some ''hello'', ev_timestamp = 15\<rparr>] \<and>
   utterances_ok []
     [\<lparr>ev_type = Partial, ev_text = Some ''hel'', ev_timestamp = 8\<rparr>,
      \<lparr>ev_type = Partial, ev_text = Some ''hello'', ev_timestamp = 13\<rparr>,
      \<lparr>ev_type = Final, ev_text = Some ''hello'', ev_timestamp = 15\<rparr>]"
proof -
  have r: "stt_reset new_FakeSTT = new_FakeSTT" by (simp add: stt_reset_def new_FakeSTT_def)
  have i: "responseIndex new_FakeSTT < length responses" by (simp add: new_FakeSTT_def responses_def)
  have ev: "events_of (fst (processFrames (stt_reset new_FakeSTT)
     (replicate 24 (test_voiced_frame, 7) @
      [(test_voiced_frame, 8), (test_voiced_frame, 9), (test_voiced_frame, 10),
       (test_voiced_frame, 11), (test_voiced_frame, 12), (test_voiced_frame, 13)] @
      replicate 14 (test_silent_frame, 14) @ [(test_silent_frame, 15)]))) =
     [\<lparr>ev_type = Partial, ev_text = Some ''hel'', ev_timestamp = 8\<rparr>,
      \<lparr>ev_type = Partial, ev_text = Some ''hello'', ev_timestamp = 13\<rparr>,
      \<lparr>ev_type = Final, ev_text = Some ''hello'', ev_timestamp = 15\<rparr>]"
    unfolding r test_utterance by (simp add: events_of_append events_of_null)
  from C6_utterance_events i have "utterances_ok [] (events_of (fst (processFrames (stt_reset new_FakeSTT)
     (replicate 24 (test_voiced_frame, 7) @
      [(test_voiced_frame, 8), (test_voiced_frame, 9), (test_voiced_frame, 10),
       (test_voiced_frame, 11), (test_voiced_frame, 12), (test_voiced_frame, 13)] @
      replicate 14 (test_silent_frame, 14) @ [(test_silent_frame, 15)]))))" by blast
  with ev i show ?thesis by (simp only:)
qed


subsection \<open>The session\<close>

text \<open>
  A valid transition of the session's machine, written out on the whole session; the
  fields the session reaches without holding a cancellation handle it never created;
  and the test session, fed twenty-five voiced and fifteen silent frames from a fresh
  start, which ends up speaking with one live handle.
\<close>

lemma s_transition_valid:
  "isValidTransition (state (stateMachine s)) t \<Longrightarrow>
   s_transition s t md =
     s\<lparr>stateMachine := (stateMachine s)
          \<lparr>state := t,
           history := history (stateMachine s) @
             [\<lparr>t_from = state (stateMachine s), t_to = t, t_timestamp = Date_now s, t_metadata = md\<rparr>],
           notified := notified (stateMachine s) @
             map (\<lambda>l. (l, \<lparr>t_from = state (stateMachine s), t_to = t, t_timestamp = Date_now s,
                            t_metadata = md\<rparr>)) (listeners (stateMachine s))\<rparr>,
       clockReads := clockReads s + 1\<rparr>"
  by (simp add: s_transition_def transition_def Let_def tick_def)

lemma s_transition_invalid:
  "\<not> isValidTransition (state (stateMachine s)) t \<Longrightarrow> s_transition s t md = s"
  by (simp add: s_transition_def transition_def Let_def)

lemma s_logEvent_fields:
  "ttsAbortController (s_logEvent s e d) = ttsAbortController s"
  "controllers (s_logEvent s e d) = controllers s"
  "stateMachine (s_logEvent s e d) = stateMachine s"
  "stt (s_logEvent s e d) = stt s"
  by (simp_all add: s_logEvent_def tick_def)

lemma s_transition_fields:
  "ttsAbortController (s_transition s t md) = ttsAbortController s"
  "controllers (s_transition s t md) = controllers s"
  "stt (s_transition s t md) = stt s"
  "state (stateMachine (s_transition s t md)) =
     (if isValidTransition (state (stateMachine s)) t then t else state (stateMachine s))"
  by (simp_all add: s_transition_def transition_def Let_def tick_def)

lemma tick_fields:
  "ttsAbortController (tick s) = ttsAbortController s"
  "controllers (tick s) = controllers s"
  "stateMachine (tick s) = stateMachine s"
  "stt (tick s) = stt s"
  by (simp_all add: tick_def)

lemma reply_pull_fields:
  "ttsAbortController (fst (reply_pull s r)) = ttsAbortController s"
  "controllers (fst (reply_pull s r)) = controllers s"
  "stt (fst (reply_pull s r)) = stt s"
  "state (stateMachine (fst (reply_pull s r))) = state (stateMachine s) \<or>
   state (stateMachine (fst (reply_pull s r))) = LISTENING"
  by (auto simp: reply_pull_def Let_def s_logEvent_fields s_transition_fields
      split: prod.splits sum.splits stream_pc.splits)

lemma session_inv_reply_pull: "session_inv s \<Longrightarrow> session_inv (fst (reply_pull s r))"
  using reply_pull_fields [of s r] by (auto simp: session_inv_def)

lemma generateResponse_fields:
  "ttsAbortController (fst (generateResponse s u)) = Some (length (controllers s))"
  "controllers (fst (generateResponse s u)) = controllers s @ [False]"
  "stt (fst (generateResponse s u)) = stt s"
  by (simp_all add: generateResponse_def Let_def new_AbortController_def reply_pull_fields
      tick_fields s_transition_fields s_logEvent_fields)

lemma session_inv_generateResponse: "session_inv (fst (generateResponse s u))"
  by (simp add: session_inv_def generateResponse_fields)

lemma handleBargeIn_fields:
  assumes "state (stateMachine s) = SPEAKING"
  shows "stt (handleBargeIn s) = stt_reset (stt s)"
    and "state (stateMachine (handleBargeIn s)) = LISTENING"
    and "session_inv s \<Longrightarrow> session_inv (handleBargeIn s)"
proof -
  have v1: "isValidTransition SPEAKING INTERRUPTED" and v2: "isValidTransition INTERRUPTED LISTENING"
    by (simp_all add: isValidTransition_def)
  note defs = handleBargeIn_def handleBargeIn_steps_def Let_def s_transition_valid v1 v2 tick_def
    s_abort_def s_new_AbortController_def new_AbortController_def abort_def s_logEvent_def assms
  show "stt (handleBargeIn s) = stt_reset (stt s)"
    by (cases "ttsAbortController s") (simp_all add: defs)
  show "state (stateMachine (handleBargeIn s)) = LISTENING"
    by (cases "ttsAbortController s") (simp_all add: defs)
  show "session_inv s \<Longrightarrow> session_inv (handleBargeIn s)"
    by (cases "ttsAbortController s") (simp_all add: defs session_inv_def)
qed

lemma sendAudioToBrowser_fields:
  "ttsAbortController (sendAudioToBrowser s f) = ttsAbortController s"
  "controllers (sendAudioToBrowser s f) = controllers s"
  "stateMachine (sendAudioToBrowser s f) = stateMachine s"
  by (simp_all add: sendAudioToBrowser_def Let_def split: option.splits)

lemma session_inv_resume: "session_inv s \<Longrightarrow> session_inv (fst (generateResponse_resume s r))"
proof -
  assume inv: "session_inv s"
  have a: "session_inv (sendAudioToBrowser s f)" for f
    using inv by (simp add: session_inv_def sendAudioToBrowser_fields)
  have b: "session_inv (sendAudioToBrowser (s_logEvent (tick s) e d) f)" for e d f
    using inv by (simp add: session_inv_def sendAudioToBrowser_fields s_logEvent_fields tick_fields)
  show ?thesis
    unfolding generateResponse_resume_def Let_def
    by (auto simp: a b inv session_inv_reply_pull split: prod.splits option.splits)
qed

lemma session_inv_start: "session_inv s \<Longrightarrow> session_inv (start s)"
  by (auto simp: session_inv_def start_def Let_def startAudioProcessing_def s_transition_fields
      s_logEvent_fields)

lemma session_inv_close: "session_inv s \<Longrightarrow> session_inv (close s)"
  by (auto simp: session_inv_def close_def Let_def s_logEvent_fields s_abort_def abort_def
      split: option.splits)

lemma session_inv_frame: "session_inv s \<Longrightarrow> session_inv (fst (snd (processAudioFrame s frame)))"
proof -
  assume inv: "session_inv s"
  show ?thesis
  proof (cases "state (stateMachine s) = SPEAKING")
    case True
    with inv handleBargeIn_fields(3) [OF True] show ?thesis
      by (auto simp: processAudioFrame_def is_state_def split: sum.splits)
  next
    case False
    show ?thesis
    proof (cases "state (stateMachine s) = LISTENING")
      case notl: False
      with False inv show ?thesis by (simp add: processAudioFrame_def is_state_def)
    next
      case True
      obtain res st' where p: "processFrame (stt s) frame (Date_now s) = (res, st')"
        by (cases "processFrame (stt s) frame (Date_now s)")
      have i1: "session_inv (s\<lparr>stt := st'\<rparr>)" using inv by (simp add: session_inv_def)
      have i2: "session_inv (s_logEvent (tick (s\<lparr>stt := st'\<rparr>)) e d)" for e d
        using inv True by (simp add: session_inv_def s_logEvent_fields tick_fields)
      from True False p i1 i2 show ?thesis
        by (auto simp: processAudioFrame_def is_state_def Let_def session_inv_generateResponse
            split: sum.splits option.splits prod.splits)
    qed
  qed
qed

lemma session_inv_new: "session_inv (new_Session sid pc ah clk)"
  by (simp add: session_inv_def new_Session_def new_StateMachine_def)

lemma session_inv_index:
  "session_inv s \<Longrightarrow> session_inv (webrtc_connected s t)"
  "session_inv s \<Longrightarrow> session_inv (destroy_audioHandler s)"
  "session_inv s \<Longrightarrow> session_inv (close_peerConnection s)"
  "session_inv s \<Longrightarrow> session_inv (tick s)"
  by (auto simp: session_inv_def webrtc_connected_def destroy_audioHandler_def
      close_peerConnection_def s_logEvent_fields tick_fields split: option.splits)

lemma reachable_inv: "reachable s \<Longrightarrow> session_inv s"
  by (induction rule: reachable.induct)
     (simp_all add: session_inv_new session_inv_start session_inv_frame session_inv_resume
        session_inv_close session_inv_index)


lemma handleBargeIn_order:
  assumes "state (stateMachine s) = SPEAKING"
      and "calculateRMS frame = Inr rms" and "VOICE_THRESHOLD < rms"
      and "ttsAbortController s = Some h" and "h < length (controllers s)"
  shows "processAudioFrame s frame = (None, handleBargeIn s, None) \<and>
         handleBargeIn s = last (handleBargeIn_steps s) \<and>
         map (\<lambda>x. state (stateMachine x)) (handleBargeIn_steps s) =
           [SPEAKING, SPEAKING, INTERRUPTED, INTERRUPTED, INTERRUPTED, INTERRUPTED, INTERRUPTED,
            LISTENING, LISTENING, LISTENING, LISTENING] \<and>
         map (\<lambda>x. controllers x ! h) (handleBargeIn_steps s) =
           [controllers s ! h, controllers s ! h, controllers s ! h,
            True, True, True, True, True, True, True, True] \<and>
         map stt (handleBargeIn_steps s) =
           [stt s, stt s, stt s, stt s, stt s, stt s, stt s, stt s,
            stt_reset (stt s), stt_reset (stt s), stt_reset (stt s)] \<and>
         voiceFrames (stt (handleBargeIn s)) = 0 \<and> silenceFrames (stt (handleBargeIn s)) = 0 \<and>
         \<not> isProcessing (stt (handleBargeIn s)) \<and>
         map (\<lambda>t. (t_from t, t_to t)) (history (stateMachine (handleBargeIn s))) =
           map (\<lambda>t. (t_from t, t_to t)) (history (stateMachine s)) @
             [(SPEAKING, INTERRUPTED), (INTERRUPTED, LISTENING)]"
proof -
  have v1: "isValidTransition SPEAKING INTERRUPTED" and v2: "isValidTransition INTERRUPTED LISTENING"
    by (simp_all add: isValidTransition_def)
  note defs = handleBargeIn_steps_def Let_def s_transition_valid v1 v2 tick_def s_abort_def
    s_new_AbortController_def new_AbortController_def abort_def s_logEvent_def assms
  have a: "processAudioFrame s frame = (None, handleBargeIn s, None)"
    using assms by (simp add: processAudioFrame_def is_state_def)
  have b: "map (\<lambda>x. state (stateMachine x)) (handleBargeIn_steps s) =
           [SPEAKING, SPEAKING, INTERRUPTED, INTERRUPTED, INTERRUPTED, INTERRUPTED, INTERRUPTED,
            LISTENING, LISTENING, LISTENING, LISTENING]"
    by (simp add: defs)
  have c: "map (\<lambda>x. controllers x ! h) (handleBargeIn_steps s) =
           [controllers s ! h, controllers s ! h, controllers s ! h,
            True, True, True, True, True, True, True, True]"
    by (simp add: defs nth_append)
  have d: "map stt (handleBargeIn_steps s) =
           [stt s, stt s, stt s, stt s, stt s, stt s, stt s, stt s,
            stt_reset (stt s), stt_reset (stt s), stt_reset (stt s)]"
    by (simp add: defs)
  have e: "stt (handleBargeIn s) = stt_reset (stt s)"
    by (simp add: handleBargeIn_def defs)
  have f: "map (\<lambda>t. (t_from t, t_to t)) (history (stateMachine (handleBargeIn s))) =
           map (\<lambda>t. (t_from t, t_to t)) (history (stateMachine s)) @
             [(SPEAKING, INTERRUPTED), (INTERRUPTED, LISTENING)]"
    by (simp add: handleBargeIn_def defs)
  from a b c d e f show ?thesis by (simp add: handleBargeIn_def stt_reset_def)
qed

lemma totalFrames_pos: "0 < totalFrames text"
proof -
  have "(100::rat) \<le> max 2 (of_nat (words text) / 3) * 1000 / 20" by simp
  then have "100 \<le> \<lfloor>max 2 ((of_nat (words text) :: rat) / 3) * 1000 / 20\<rfloor>"
    by (simp only: le_floor_iff of_int_numeral)
  then have "100 \<le> int (totalFrames text)" by (simp only: totalFrames_eq)
  then show ?thesis by simp
qed

lemma generateResponse_speaking:
  assumes "state (stateMachine s) = PROCESSING"
  shows "state (stateMachine (fst (generateResponse s userText))) = SPEAKING \<and>
         ttsAbortController (fst (generateResponse s userText)) = Some (length (controllers s)) \<and>
         controllers (fst (generateResponse s userText)) = controllers s @ [False] \<and>
         (\<exists>r f. snd (generateResponse s userText) = Some r \<and>
                r_abortSignal r = length (controllers s) \<and> as_pc (r_stream r) = InDelay f)"
proof -
  define bot where "bot = ''You said: '' @ js_str userText"
  let ?s1 = "s_logEvent s ''tts_start'' (TextData (Some bot))"
  let ?s2 = "s_transition ?s1 SPEAKING (MetaText (Some bot))"
  let ?s3 = "?s2\<lparr>ttsAbortController := Some (length (controllers ?s2)),
                   controllers := controllers ?s2 @ [False]\<rparr>"
  let ?s4 = "tick ?s3"
  let ?r = "\<lparr>r_ttsStartTime = Date_now ?s3, r_firstChunk = True, r_chunkCount = 0,
             r_abortSignal = length (controllers ?s2),
             r_stream = generateAudioStream bot (Some (length (controllers ?s2)))\<rparr>"
  have g: "generateResponse s userText = reply_pull ?s4 ?r"
    by (simp add: generateResponse_def Let_def new_AbortController_def bot_def)
  have st1: "state (stateMachine ?s1) = PROCESSING" "controllers ?s1 = controllers s"
    using assms by (simp_all add: s_logEvent_def tick_def)
  have v: "isValidTransition (state (stateMachine ?s1)) SPEAKING"
    by (simp add: st1 isValidTransition_def)
  have st2: "state (stateMachine ?s2) = SPEAKING" "controllers ?s2 = controllers s"
    by (simp_all add: s_transition_valid [OF v] st1)
  have st4: "state (stateMachine ?s4) = SPEAKING" "controllers ?s4 = controllers s @ [False]"
    "ttsAbortController ?s4 = Some (length (controllers s))"
    by (simp_all add: tick_def st2)
  let ?st = "(generateAudioStream bot (Some (length (controllers s))))\<lparr>as_frameIndex := 0\<rparr>"
  have na: "\<not> signal_aborted (controllers ?s4) (as_signal ?st)"
    by (simp add: st4 signal_aborted_def generateAudioStream_def nth_append)
  have lt: "as_frameIndex ?st < totalFrames (as_text ?st)"
    by (simp add: totalFrames_pos)
  from stream_loop_head_live [OF na lt, of "tts ?s4"] obtain f t' where
    h: "stream_loop_head (controllers ?s4) (tts ?s4) ?st = (Inr (?st\<lparr>as_pc := InDelay f\<rparr>), t')"
    by blast
  have n: "stream_next (controllers ?s4) (tts ?s4) (r_stream ?r) = (Inr (?st\<lparr>as_pc := InDelay f\<rparr>), t')"
    using h by (simp add: stream_next_def generateAudioStream_def st2)
  have "reply_pull ?s4 ?r = (?s4\<lparr>tts := t'\<rparr>, Some (?r\<lparr>r_stream := ?st\<lparr>as_pc := InDelay f\<rparr>\<rparr>))"
    unfolding reply_pull_def n by simp
  with g st4 st2 show ?thesis by simp
qed


lemma processAudioFrame_quiet:
  assumes "state (stateMachine s) = LISTENING"
      and "processFrame (stt s) frame (Date_now s) = (Inr None, st')"
  shows "fst (snd (processAudioFrame s frame)) = s\<lparr>stt := st'\<rparr>"
  using assms by (simp add: processAudioFrame_def is_state_def)

lemma processAudioFrame_partial:
  assumes "state (stateMachine s) = LISTENING"
      and "processFrame (stt s) frame (Date_now s) = (Inr (Some e), st')"
      and "ev_type e = Partial"
  shows "state (stateMachine (fst (snd (processAudioFrame s frame)))) = LISTENING \<and>
         stt (fst (snd (processAudioFrame s frame))) = st' \<and>
         controllers (fst (snd (processAudioFrame s frame))) = controllers s \<and>
         ttsAbortController (fst (snd (processAudioFrame s frame))) = ttsAbortController s"
  using assms
  by (simp add: processAudioFrame_def is_state_def Let_def s_logEvent_fields tick_fields)

lemma processAudioFrame_final:
  assumes "state (stateMachine s) = LISTENING"
      and "processFrame (stt s) frame (Date_now s) = (Inr (Some e), st')"
      and "ev_type e = Final"
  shows "state (stateMachine (fst (snd (processAudioFrame s frame)))) = SPEAKING \<and>
         stt (fst (snd (processAudioFrame s frame))) = st' \<and>
         controllers (fst (snd (processAudioFrame s frame))) = controllers s @ [False] \<and>
         ttsAbortController (fst (snd (processAudioFrame s frame))) = Some (length (controllers s))"
proof -
  let ?s1 = "tick (s\<lparr>stt := st'\<rparr>)"
  let ?s2 = "s_logEvent ?s1 ''stt_final'' (TextData (ev_text e))"
  let ?s3 = "s_transition ?s2 PROCESSING (MetaText (ev_text e))"
  have st: "state (stateMachine ?s3) = PROCESSING" "controllers ?s3 = controllers s" "stt ?s3 = st'"
    using assms(1)
    by (simp_all add: s_transition_fields s_logEvent_fields tick_fields isValidTransition_def)
  have "fst (snd (processAudioFrame s frame)) = fst (generateResponse ?s3 (ev_text e))"
    using assms by (simp add: processAudioFrame_def is_state_def Let_def case_prod_beta)
  with generateResponse_speaking [OF st(1), of "ev_text e"] generateResponse_fields(3) [of ?s3 "ev_text e"] st
  show ?thesis by simp
qed

lemma processAudioFrames_append:
  "processAudioFrames s (a @ b) = processAudioFrames (processAudioFrames s a) b"
  by (simp add: processAudioFrames_def)

lemma processAudioFrames_voiced_idle:
  "state (stateMachine s) = LISTENING \<Longrightarrow> \<not> isProcessing (stt s) \<Longrightarrow>
   voiceFrames (stt s) + n < 25 \<Longrightarrow> 0 < n \<Longrightarrow>
   processAudioFrames s (replicate n test_voiced_frame) =
     s\<lparr>stt := (stt s)\<lparr>voiceFrames := voiceFrames (stt s) + n, silenceFrames := 0\<rparr>\<rparr>"
proof (induction n arbitrary: s)
  case 0
  then show ?case by simp
next
  case (Suc n)
  let ?st1 = "(stt s)\<lparr>voiceFrames := voiceFrames (stt s) + 1, silenceFrames := 0\<rparr>"
  from Suc.prems have "processFrame (stt s) test_voiced_frame (Date_now s) = (Inr None, ?st1)"
    by (simp add: processFrame_voiced VOICE_START_FRAMES_def Let_def)
  from processAudioFrame_quiet [OF Suc.prems(1) this]
  have step: "fst (snd (processAudioFrame s test_voiced_frame)) = s\<lparr>stt := ?st1\<rparr>" .
  show ?case
  proof (cases n)
    case 0
    with step show ?thesis by (simp add: processAudioFrames_def)
  next
    case (Suc m)
    with Suc.prems have "state (stateMachine (s\<lparr>stt := ?st1\<rparr>)) = LISTENING"
      "\<not> isProcessing (stt (s\<lparr>stt := ?st1\<rparr>))"
      "voiceFrames (stt (s\<lparr>stt := ?st1\<rparr>)) + n < 25" "0 < n" by simp_all
    from Suc.IH [OF this] step show ?thesis by (simp add: processAudioFrames_def)
  qed
qed

lemma processAudioFrames_silent_wait:
  "state (stateMachine s) = LISTENING \<Longrightarrow> isProcessing (stt s) \<Longrightarrow>
   silenceFrames (stt s) + n < 15 \<Longrightarrow>
   processAudioFrames s (replicate n test_silent_frame) =
     s\<lparr>stt := (stt s)\<lparr>silenceFrames := silenceFrames (stt s) + n\<rparr>\<rparr>"
proof (induction n arbitrary: s)
  case 0
  then show ?case by (simp add: processAudioFrames_def)
next
  case (Suc n)
  let ?st1 = "(stt s)\<lparr>silenceFrames := silenceFrames (stt s) + 1\<rparr>"
  from Suc.prems have "processFrame (stt s) test_silent_frame (Date_now s) = (Inr None, ?st1)"
    by (simp add: processFrame_silent SILENCE_END_FRAMES_def Let_def)
  from processAudioFrame_quiet [OF Suc.prems(1) this]
  have step: "fst (snd (processAudioFrame s test_silent_frame)) = s\<lparr>stt := ?st1\<rparr>" .
  from Suc.prems have "state (stateMachine (s\<lparr>stt := ?st1\<rparr>)) = LISTENING"
    "isProcessing (stt (s\<lparr>stt := ?st1\<rparr>))"
    "silenceFrames (stt (s\<lparr>stt := ?st1\<rparr>)) + n < 15" by simp_all
  from Suc.IH [OF this] step show ?case by (simp add: processAudioFrames_def)
qed

lemma test_started:
  "state (stateMachine (start test_session)) = LISTENING \<and> stt (start test_session) = new_FakeSTT \<and>
   controllers (start test_session) = [] \<and> ttsAbortController (start test_session) = None"
  by (simp add: start_def test_session_def new_Session_def Let_def s_logEvent_fields
      s_transition_fields startAudioProcessing_def new_StateMachine_def isValidTransition_def)

lemma speaking_after_utterance:
  assumes s0: "state (stateMachine s0) = LISTENING" "stt s0 = new_FakeSTT"
    "controllers s0 = []" "ttsAbortController s0 = None"
  shows "state (stateMachine (processAudioFrames s0
           (replicate 24 test_voiced_frame @ [test_voiced_frame] @
            replicate 14 test_silent_frame @ [test_silent_frame]))) = SPEAKING \<and>
         ttsAbortController (processAudioFrames s0
           (replicate 24 test_voiced_frame @ [test_voiced_frame] @
            replicate 14 test_silent_frame @ [test_silent_frame])) = Some 0 \<and>
         controllers (processAudioFrames s0
           (replicate 24 test_voiced_frame @ [test_voiced_frame] @
            replicate 14 test_silent_frame @ [test_silent_frame])) = [False]"
proof -
  let ?st24 = "new_FakeSTT\<lparr>voiceFrames := 24, silenceFrames := 0\<rparr>"
  let ?s24 = "s0\<lparr>stt := ?st24\<rparr>"
  let ?s25 = "fst (snd (processAudioFrame ?s24 test_voiced_frame))"
  let ?st25 = "new_FakeSTT\<lparr>voiceFrames := 25, silenceFrames := 0, isProcessing := True,
                  partialText := ''hel''\<rparr>"
  let ?s39 = "?s25\<lparr>stt := ?st25\<lparr>silenceFrames := 14\<rparr>\<rparr>"
  let ?s40 = "fst (snd (processAudioFrame ?s39 test_silent_frame))"
  have a: "processAudioFrames s0 (replicate 24 test_voiced_frame) = ?s24"
    using processAudioFrames_voiced_idle [of s0 24] s0 by (simp add: new_FakeSTT_def)
  have p25: "processFrame (stt ?s24) test_voiced_frame (Date_now ?s24) =
      (Inr (Some \<lparr>ev_type = Partial, ev_text = Some ''hel'', ev_timestamp = Date_now ?s24\<rparr>), ?st25)"
    by (simp add: processFrame_voiced new_FakeSTT_def VOICE_START_FRAMES_def Let_def
        getNextResponse_def responses_def substring_def)
  have l24: "state (stateMachine ?s24) = LISTENING" "controllers ?s24 = []"
    "ttsAbortController ?s24 = None" using s0 by simp_all
  from processAudioFrame_partial [OF l24(1) p25] l24
  have b: "state (stateMachine ?s25) = LISTENING" "stt ?s25 = ?st25" "controllers ?s25 = []"
    "ttsAbortController ?s25 = None" by simp_all
  have c: "processAudioFrames ?s25 (replicate 14 test_silent_frame) = ?s39"
    using processAudioFrames_silent_wait [of ?s25 14] b by (simp add: new_FakeSTT_def)
  have l39: "state (stateMachine ?s39) = LISTENING" "controllers ?s39 = []" using b by simp_all
  have p40: "processFrame (stt ?s39) test_silent_frame (Date_now ?s39) =
      (Inr (Some \<lparr>ev_type = Final, ev_text = Some ''hello'', ev_timestamp = Date_now ?s39\<rparr>),
       new_FakeSTT\<lparr>responseIndex := 1\<rparr>)"
    by (simp add: processFrame_silent new_FakeSTT_def SILENCE_END_FRAMES_def Let_def
        getNextResponse_def responses_def stt_reset_def)
  from processAudioFrame_final [OF l39(1) p40] l39
  have d: "state (stateMachine ?s40) = SPEAKING" "controllers ?s40 = [False]"
    "ttsAbortController ?s40 = Some 0" by simp_all
  have e1: "processAudioFrames ?s24 [test_voiced_frame] = ?s25"
    by (simp add: processAudioFrames_def)
  have e2: "processAudioFrames ?s39 [test_silent_frame] = ?s40"
    by (simp add: processAudioFrames_def)
  have "processAudioFrames s0
           (replicate 24 test_voiced_frame @ [test_voiced_frame] @
            replicate 14 test_silent_frame @ [test_silent_frame]) = ?s40"
    unfolding processAudioFrames_append a e1 c e2 ..
  with d show ?thesis by simp
qed

lemma test_speaking_facts:
  "state (stateMachine test_speaking) = SPEAKING \<and> ttsAbortController test_speaking = Some 0 \<and>
   controllers test_speaking = [False]"
  unfolding test_speaking_def using test_started by (intro speaking_after_utterance) simp_all

lemma test_connected_facts:
  "state (stateMachine test_connected) = LISTENING \<and> stt test_connected = new_FakeSTT \<and>
   controllers test_connected = [] \<and> ttsAbortController test_connected = None"
  by (simp add: test_connected_def webrtc_connected_def start_def new_Session_def Let_def
      s_logEvent_fields s_transition_fields startAudioProcessing_def new_StateMachine_def
      isValidTransition_def)

lemma test_connected_speaking_facts:
  "state (stateMachine test_connected_speaking) = SPEAKING \<and>
   ttsAbortController test_connected_speaking = Some 0 \<and>
   controllers test_connected_speaking = [False]"
  unfolding test_connected_speaking_def using test_connected_facts
  by (intro speaking_after_utterance) simp_all

lemma reachable_frames: "reachable s \<Longrightarrow> reachable (processAudioFrames s frames)"
proof (induction frames arbitrary: s)
  case Nil
  then show ?case by (simp add: processAudioFrames_def)
next
  case (Cons f frames)
  from Cons.prems have "reachable (fst (snd (processAudioFrame s f)))" by (rule reach_frame)
  from Cons.IH [OF this] show ?case by (simp add: processAudioFrames_def)
qed

lemma reachable_test_speaking: "reachable test_speaking"
  unfolding test_speaking_def test_session_def
  by (intro reachable_frames reach_start reach_new)

lemma reachable_test_connected_speaking: "reachable test_connected_speaking"
  unfolding test_connected_speaking_def test_connected_def
  by (intro reachable_frames reach_connected reach_start reach_new)

text \<open>
  C1. A frame whose RMS exceeds the threshold arrives while the state is \<open>SPEAKING\<close>, in a
  session that, as every session the server can get into does (\<open>reachable_inv\<close>), holds
  the cancellation handle of the reply it is speaking. With \<open>h\<close> that handle,
  \<open>processAudioFrame\<close> runs \<open>handleBargeIn\<close> and nothing else, and statement by
  statement: the state is \<open>SPEAKING\<close>, then \<open>INTERRUPTED\<close> (from the third entry of the
  list on), then \<open>LISTENING\<close> (from the eighth on), and the history gains exactly these
  two transitions; the flag of \<open>h\<close> is as it was up to the transition to \<open>INTERRUPTED\<close>
  and is set by the next statement, before the transition to \<open>LISTENING\<close>; the recognizer
  is untouched until \<open>LISTENING\<close> is reached and reset by the statement that follows,
  which leaves its counters at zero.
\<close>

theorem C1_barge_in_order:
  assumes "session_inv s" and "state (stateMachine s) = SPEAKING"
      and "calculateRMS frame = Inr rms" and "VOICE_THRESHOLD < rms"
  shows "\<exists>h. ttsAbortController s = Some h \<and> h < length (controllers s) \<and>
         processAudioFrame s frame = (None, handleBargeIn s, None) \<and>
         handleBargeIn s = last (handleBargeIn_steps s) \<and>
         map (\<lambda>x. state (stateMachine x)) (handleBargeIn_steps s) =
           [SPEAKING, SPEAKING, INTERRUPTED, INTERRUPTED, INTERRUPTED, INTERRUPTED, INTERRUPTED,
            LISTENING, LISTENING, LISTENING, LISTENING] \<and>
         map (\<lambda>x. controllers x ! h) (handleBargeIn_steps s) =
           [controllers s ! h, controllers s ! h, controllers s ! h,
            True, True, True, True, True, True, True, True] \<and>
         map stt (handleBargeIn_steps s) =
           [stt s, stt s, stt s, stt s, stt s, stt s, stt s, stt s,
            stt_reset (stt s), stt_reset (stt s), stt_reset (stt s)] \<and>
         voiceFrames (stt (handleBargeIn s)) = 0 \<and> silenceFrames (stt (handleBargeIn s)) = 0 \<and>
         \<not> isProcessing (stt (handleBargeIn s)) \<and>
         map (\<lambda>t. (t_from t, t_to t)) (history (stateMachine (handleBargeIn s))) =
           map (\<lambda>t. (t_from t, t_to t)) (history (stateMachine s)) @
             [(SPEAKING, INTERRUPTED), (INTERRUPTED, LISTENING)]"
proof -
  from assms(1,2) obtain h where
    h: "ttsAbortController s = Some h" "h < length (controllers s)"
    by (auto simp: session_inv_def)
  note order = handleBargeIn_order [OF assms(2,3,4) h]
  from h order show ?thesis
    by - (rule exI [of _ h], elim conjE, intro conjI, assumption+)
qed

theorem C1_barge_in_witness:
  "session_inv test_connected_speaking \<and>
   state (stateMachine test_connected_speaking) = SPEAKING \<and>
   calculateRMS test_voiced_frame = Inr (1 / 2) \<and> VOICE_THRESHOLD < 1 / 2 \<and>
   ttsAbortController test_connected_speaking = Some 0 \<and>
   processAudioFrame test_connected_speaking test_voiced_frame =
     (None, handleBargeIn test_connected_speaking, None) \<and>
   map (\<lambda>x. state (stateMachine x)) (handleBargeIn_steps test_connected_speaking) =
           [SPEAKING, SPEAKING, INTERRUPTED, INTERRUPTED, INTERRUPTED, INTERRUPTED, INTERRUPTED,
            LISTENING, LISTENING, LISTENING, LISTENING] \<and>
   map (\<lambda>x. controllers x ! 0) (handleBargeIn_steps test_connected_speaking) =
           [False, False, False, True, True, True, True, True, True, True, True]"
proof -
  have a: "state (stateMachine test_connected_speaking) = SPEAKING"
    "ttsAbortController test_connected_speaking = Some 0"
    "controllers test_connected_speaking = [False]"
    by (simp_all add: test_connected_speaking_facts)
  have b: "VOICE_THRESHOLD < 1 / 2" by (simp add: VOICE_THRESHOLD_def)
  have i: "session_inv test_connected_speaking"
    by (rule reachable_inv) (rule reachable_test_connected_speaking)
  from C1_barge_in_order [OF i a(1) calculateRMS_voiced b] a b calculateRMS_voiced i
  show ?thesis by auto
qed

text \<open>
  C8, as the code has it. \<open>close()\<close> trips the cancellation handle the session holds (if
  any), stops audio processing and records a \<open>session_close\<close> event. It makes no
  transition: the state machine is left exactly as it was.
\<close>

theorem C8_close_effects:
  "controllers (close s) =
     (case ttsAbortController s of None \<Rightarrow> controllers s | Some h \<Rightarrow> (controllers s)[h := True]) \<and>
   (\<forall>h. ttsAbortController s = Some h \<longrightarrow> h < length (controllers s) \<longrightarrow>
        signal_aborted (controllers (close s)) (Some h)) \<and>
   isProcessingAudio (close s) = False \<and>
   logs (logger (close s)) =
     logs (logger s) @
       [\<lparr>eventType = ''session_close'', le_timestamp = Date_now s, le_data = NoData\<rparr>] \<and>
   stateMachine (close s) = stateMachine s"
  by (auto simp: close_def Let_def s_logEvent_def tick_def logEvent_def s_abort_def abort_def
      Date_now_def signal_aborted_def split: option.splits)

text \<open>
  C8 as stated fails: a session that was started is in \<open>LISTENING\<close>, and after \<open>close()\<close>
  its state machine is still in \<open>LISTENING\<close>, not in \<open>IDLE\<close>.
\<close>

theorem C8_not_idle_counterexample:
  "state (stateMachine (close (start test_session))) = LISTENING"
  by (simp add: close_def start_def test_session_def new_Session_def Let_def s_logEvent_def tick_def
      logEvent_def s_abort_def s_transition_def transition_def isValidTransition_def
      startAudioProcessing_def new_StateMachine_def)



theorem C8_close_witness:
  "signal_aborted (controllers (close test_speaking)) (Some 0) \<and>
   isProcessingAudio (close test_speaking) = False \<and>
   eventType (last (logs (logger (close test_speaking)))) = ''session_close'' \<and>
   state (stateMachine (close test_speaking)) = SPEAKING"
  using C8_close_effects [of test_speaking] test_speaking_facts
  by (simp add: signal_aborted_def)

subsection \<open>The frame normalizer\<close>

lemma bytesPerFrame_640: "bytesPerFrame = 640"
  by (simp add: bytesPerFrame_def frameSize_def targetSampleRate_def frameDuration_def)

lemma extract_frames_props:
  "\<exists>new rest. extract_frames frames buf = (frames @ new, rest) \<and>
     length new = length buf div 640 \<and> (\<forall>f\<in>set new. length f = 640) \<and>
     concat new @ rest = buf \<and> length rest < 640"
proof (induction frames buf rule: extract_frames.induct)
  case (1 frames buf)
  show ?case
  proof (cases "bytesPerFrame \<le> length buf")
    case True
    from "1.IH" [OF True] obtain new rest where
      e: "extract_frames (frames @ [take bytesPerFrame buf]) (drop bytesPerFrame buf) =
            ((frames @ [take bytesPerFrame buf]) @ new, rest)"
      and n: "length new = length (drop bytesPerFrame buf) div 640"
      and f: "\<forall>f\<in>set new. length f = 640"
      and c: "concat new @ rest = drop bytesPerFrame buf" and r: "length rest < 640" by blast
    from True have l: "640 \<le> length buf" by (simp add: bytesPerFrame_640)
    then have d: "length buf div 640 = Suc ((length buf - 640) div 640)"
      by (simp add: le_div_geq)
    have "extract_frames frames buf = (frames @ (take 640 buf # new), rest)"
      using True e by (subst extract_frames.simps) (simp add: bytesPerFrame_640)
    moreover have "length (take 640 buf # new) = length buf div 640"
      using n d by (simp add: bytesPerFrame_640)
    moreover have "\<forall>f\<in>set (take 640 buf # new). length f = 640" using f l by simp
    moreover have "concat (take 640 buf # new) @ rest = buf"
      using c by (simp add: bytesPerFrame_640)
    ultimately show ?thesis using r by blast
  next
    case False
    then have "extract_frames frames buf = (frames @ [], buf)"
      by (subst extract_frames.simps) simp
    with False show ?thesis by (auto simp: bytesPerFrame_640)
  qed
qed


lemma processAudioData_props:
  assumes "processedData B rate channels = Inr P"
  shows "\<exists>frames rest. processAudioData ap B rate channels = Inr (frames, ap\<lparr>buffer := rest\<rparr>) \<and>
           length frames = (length (buffer ap) + length P) div 640 \<and>
           (\<forall>f\<in>set frames. length f = 640) \<and>
           concat frames @ rest = buffer ap @ P \<and> length rest < 640"
proof -
  from extract_frames_props [of "[]" "buffer ap @ P"] obtain new rest where
    "extract_frames [] (buffer ap @ P) = (new, rest)" "length new = length (buffer ap @ P) div 640"
    "\<forall>f\<in>set new. length f = 640" "concat new @ rest = buffer ap @ P" "length rest < 640"
    by auto
  with assms show ?thesis by (auto simp: processAudioData_def intro!: exI [of _ rest])
qed





lemma readInt16LE_ok:
  "0 \<le> off \<Longrightarrow> off + 2 \<le> int (length buf) \<Longrightarrow>
   \<exists>v. readInt16LE buf off = Inr v \<and> - 32768 \<le> v \<and> v \<le> 32767"
proof -
  assume "0 \<le> off" "off + 2 \<le> int (length buf)"
  moreover have "- 32768 \<le> sint (w :: 16 word)" for w
    using sint_ge [of w] by simp
  moreover have "sint (w :: 16 word) \<le> 32767" for w
    using sint_lt [of w] by simp
  ultimately show ?thesis by (simp add: readInt16LE_def)
qed

lemma Math_round_between:
  "of_int a \<le> x \<Longrightarrow> x \<le> of_int b \<Longrightarrow> a \<le> Math_round x \<and> Math_round x \<le> b"
  unfolding Math_round_def by (simp add: le_floor_iff floor_le_iff)

lemma interpolate_range:
  fixes s1 s2 :: int and fr :: rat
  assumes "- 32768 \<le> s1" "s1 \<le> 32767" "- 32768 \<le> s2" "s2 \<le> 32767" "0 \<le> fr" "fr \<le> 1"
  shows "- 32768 \<le> Math_round (of_int s1 + (of_int s2 - of_int s1) * fr) \<and>
         Math_round (of_int s1 + (of_int s2 - of_int s1) * fr) \<le> 32767"
proof -
  let ?x = "(of_int s1 :: rat) + (of_int s2 - of_int s1) * fr"
  have eq: "?x = of_int s1 * (1 - fr) + of_int s2 * fr" by (simp add: algebra_simps)
  have a: "0 \<le> 1 - fr" using assms by simp
  have "(of_int (- 32768) :: rat) * (1 - fr) + of_int (- 32768) * fr \<le> ?x"
    unfolding eq using assms a by (intro add_mono mult_right_mono) simp_all
  then have lo: "(of_int (- 32768) :: rat) \<le> ?x" by (simp add: algebra_simps)
  have "?x \<le> (of_int 32767 :: rat) * (1 - fr) + of_int 32767 * fr"
    unfolding eq using assms a by (intro add_mono mult_right_mono) simp_all
  then have hi: "?x \<le> (of_int 32767 :: rat)" by (simp add: algebra_simps)
  from Math_round_between [OF lo hi] show ?thesis by simp
qed

lemma resample_index_bound:
  fixes i m rate :: nat
  assumes r: "0 < rate" and i: "i < nat \<lfloor>(of_nat m :: rat) * 16000 / of_nat rate\<rfloor>"
  shows "0 \<le> \<lfloor>(of_nat i :: rat) * of_nat rate / 16000\<rfloor> \<and>
         \<lfloor>(of_nat i :: rat) * of_nat rate / 16000\<rfloor> < int m"
proof -
  from i have "int i + 1 \<le> \<lfloor>(of_nat m :: rat) * 16000 / of_nat rate\<rfloor>" by simp
  then have "(of_int (int i + 1) :: rat) \<le> of_nat m * 16000 / of_nat rate"
    by (simp only: le_floor_iff)
  with r have "(of_nat i + 1 :: rat) * of_nat rate \<le> of_nat m * 16000"
    by (simp add: pos_le_divide_eq)
  then have "(of_nat i :: rat) * of_nat rate + of_nat rate \<le> of_nat m * 16000"
    by (simp add: algebra_simps)
  moreover from r have "(0::rat) < of_nat rate" by simp
  ultimately have "(of_nat i :: rat) * of_nat rate < of_nat m * 16000" by linarith
  then have "(of_nat i :: rat) * of_nat rate / 16000 < of_int (int m)" by simp
  then have "\<lfloor>(of_nat i :: rat) * of_nat rate / 16000\<rfloor> < int m" by (simp only: floor_less_iff)
  moreover have "0 \<le> \<lfloor>(of_nat i :: rat) * of_nat rate / 16000\<rfloor>" by simp
  ultimately show ?thesis by simp
qed



lemma resample_loop_ok:
  assumes r: "0 < rate" and li: "length input = 2 * m"
      and lo: "length outp = 2 * nat \<lfloor>(of_nat m :: rat) * 16000 / of_nat rate\<rfloor>"
      and idx: "\<forall>i\<in>set is. i < nat \<lfloor>(of_nat m :: rat) * 16000 / of_nat rate\<rfloor>"
  shows "\<exists>out'. resample_loop input rate 16000 is outp = Inr out' \<and> length out' = length outp"
  using lo idx
proof (induction "is" arbitrary: outp)
  case Nil
  then show ?case by simp
next
  case (Cons i "is")
  define srcIndex where "srcIndex = (of_nat i :: rat) * of_nat rate / 16000"
  define fl where "fl = \<lfloor>srcIndex\<rfloor>"
  define ce where "ce = min (fl + 1) (int m - 1)"
  from Cons.prems have i: "i < nat \<lfloor>(of_nat m :: rat) * 16000 / of_nat rate\<rfloor>" by simp
  from resample_index_bound [OF r i] have fl: "0 \<le> fl" "fl < int m"
    by (simp_all add: fl_def srcIndex_def)
  have ce: "0 \<le> ce" "ce < int m" using fl by (simp_all add: ce_def)
  have ceq: "\<lfloor>min (rat_of_int fl + 1) (of_nat (length input) / 2 - 1) * 2\<rfloor> = ce * 2"
  proof -
    have "min (rat_of_int fl + 1) (of_nat (length input) / 2 - 1) = of_int ce"
      by (simp add: li ce_def min_def)
    moreover have "\<lfloor>rat_of_int ce * 2\<rfloor> = ce * 2"
      using floor_of_int [of "ce * 2", where ?'a = rat] by (simp del: floor_of_int)
    ultimately show ?thesis by (simp only:)
  qed
  from fl li obtain s1 where s1: "readInt16LE input (fl * 2) = Inr s1" "- 32768 \<le> s1" "s1 \<le> 32767"
    using readInt16LE_ok [of "fl * 2" input] by auto
  from ce li obtain s2 where s2: "readInt16LE input (ce * 2) = Inr s2" "- 32768 \<le> s2" "s2 \<le> 32767"
    using readInt16LE_ok [of "ce * 2" input] by auto
  define v where "v = Math_round (of_int s1 + (of_int s2 - of_int s1) * (srcIndex - of_int fl))"
  have fr: "0 \<le> srcIndex - of_int fl" "srcIndex - of_int fl \<le> 1"
    unfolding fl_def by linarith+
  from interpolate_range [OF s1(2,3) s2(2,3) fr] have v: "- 32768 \<le> v" "v \<le> 32767"
    by (simp_all add: v_def)
  from i Cons.prems(1) have "int i * 2 + 2 \<le> int (length outp)" by simp
  with v obtain out1 where w: "writeInt16LE outp v (int i * 2) = Inr out1"
    and l1: "length out1 = length outp"
    using writeInt16LE_ok [of v "int i * 2" outp] by auto
  from Cons.prems l1 have "length out1 = 2 * nat \<lfloor>(of_nat m :: rat) * 16000 / of_nat rate\<rfloor>"
    "\<forall>i\<in>set is. i < nat \<lfloor>(of_nat m :: rat) * 16000 / of_nat rate\<rfloor>" by simp_all
  from Cons.IH [OF this] obtain out' where
    rec: "resample_loop input rate 16000 is out1 = Inr out'" "length out' = length out1" by blast
  have "resample_loop input rate 16000 (i # is) outp = Inr out'"
    using s1(1) s2(1) w rec(1)
    by (simp add: Let_def ceq flip: srcIndex_def fl_def v_def)
  with rec(2) l1 show ?case by simp
qed

lemma simpleResample_even:
  assumes r: "0 < rate" and li: "length input = 2 * m"
  shows "\<exists>out. simpleResample input rate 16000 = Inr out \<and>
           length out = 2 * nat \<lfloor>(of_nat m :: rat) * 16000 / of_nat rate\<rfloor>"
proof -
  let ?n = "nat \<lfloor>(of_nat m :: rat) * 16000 / of_nat rate\<rfloor>"
  have fr: "for_range (of_nat ?n) = [0..<?n]" by (simp add: for_range_def)
  have e1: "(of_nat (length input) :: rat) / 2 * of_nat 16000 / of_nat rate
              = of_nat m * 16000 / of_nat rate" by (simp add: li)
  from resample_loop_ok [OF assms, of "Buffer_alloc (?n * 2)" "[0..<?n]"]
  obtain out where "resample_loop input rate 16000 [0..<?n] (Buffer_alloc (?n * 2)) = Inr out"
    "length out = 2 * ?n" by (auto simp: Buffer_alloc_def)
  moreover from r have "simpleResample input rate 16000 =
      resample_loop input rate 16000 [0..<?n] (Buffer_alloc (?n * 2))"
    unfolding simpleResample_def Let_def e1 fr by simp
  ultimately show ?thesis by simp
qed



lemma mono_sum_ok:
  assumes "\<forall>ch\<in>set chs. (int i * int channels + int ch) * 2 + 2 \<le> int (length input)"
      and "- 32768 * int k \<le> acc" "acc \<le> 32767 * int k"
  shows "\<exists>sm. mono_sum input channels i chs acc = Inr sm \<and>
           - 32768 * int (k + length chs) \<le> sm \<and> sm \<le> 32767 * int (k + length chs)"
  using assms
proof (induction chs arbitrary: acc k)
  case Nil
  then show ?case by simp
next
  case (Cons ch chs)
  from Cons.prems(1) obtain v where v: "readInt16LE input ((int i * int channels + int ch) * 2) = Inr v"
    "- 32768 \<le> v" "v \<le> 32767"
    using readInt16LE_ok [of "(int i * int channels + int ch) * 2" input] by auto
  from Cons.prems v have "\<forall>ch\<in>set chs. (int i * int channels + int ch) * 2 + 2 \<le> int (length input)"
    "- 32768 * int (Suc k) \<le> acc + v" "acc + v \<le> 32767 * int (Suc k)" by simp_all
  from Cons.IH [OF this] v(1) show ?case by simp
qed

lemma mono_loop_ok:
  assumes c: "0 < channels" and li: "length input = 2 * channels * q"
      and lo: "length outp = 2 * q" and idx: "\<forall>i\<in>set is. i < q"
  shows "\<exists>out'. mono_loop input channels is outp = Inr out' \<and> length out' = length outp"
  using lo idx
proof (induction "is" arbitrary: outp)
  case Nil
  then show ?case by simp
next
  case (Cons i "is")
  from Cons.prems have i: "i < q" by simp
  have fr: "for_range (of_nat channels) = [0..<channels]" by (simp add: for_range_def)
  have rd: "\<forall>ch\<in>set [0..<channels]. (int i * int channels + int ch) * 2 + 2 \<le> int (length input)"
  proof
    fix ch assume "ch \<in> set [0..<channels]"
    then have "ch < channels" by simp
    then have "i * channels + ch + 1 \<le> Suc i * channels" by simp
    also from i have "Suc i * channels \<le> q * channels" by (intro mult_le_mono1) simp
    finally have "(i * channels + ch) * 2 + 2 \<le> 2 * channels * q" by (simp add: algebra_simps)
    then have "int ((i * channels + ch) * 2 + 2) \<le> int (length input)" by (simp only: li)
    then show "(int i * int channels + int ch) * 2 + 2 \<le> int (length input)" by simp
  qed
  from mono_sum_ok [OF rd, of 0 0] obtain sm where
    sm: "mono_sum input channels i [0..<channels] 0 = Inr sm"
    "- 32768 * int channels \<le> sm" "sm \<le> 32767 * int channels" by auto
  from c sm(2) have "(of_int (- 32768) :: rat) \<le> of_int sm / of_nat channels"
  proof -
    from sm(2) have "(of_int (- 32768 * int channels) :: rat) \<le> of_int sm" by (simp only: of_int_le_iff)
    with c show ?thesis by (simp add: pos_le_divide_eq)
  qed
  moreover from c sm(3) have "(of_int sm :: rat) / of_nat channels \<le> of_int 32767"
  proof -
    from sm(3) have "(of_int sm :: rat) \<le> of_int (32767 * int channels)" by (simp only: of_int_le_iff)
    with c show ?thesis by (simp add: pos_divide_le_eq)
  qed
  ultimately have v: "- 32768 \<le> Math_round (of_int sm / of_nat channels)"
    "Math_round (of_int sm / of_nat channels) \<le> 32767"
    using Math_round_between [of "- 32768" "of_int sm / of_nat channels" 32767] by simp_all
  from i Cons.prems(1) have "int i * 2 + 2 \<le> int (length outp)" by simp
  with v obtain out1 where w: "writeInt16LE outp (Math_round (of_int sm / of_nat channels)) (int i * 2) = Inr out1"
    and l1: "length out1 = length outp"
    using writeInt16LE_ok [of "Math_round (of_int sm / of_nat channels)" "int i * 2" outp] by auto
  from Cons.prems l1 have "length out1 = 2 * q" "\<forall>i\<in>set is. i < q" by simp_all
  from Cons.IH [OF this] obtain out' where
    rec: "mono_loop input channels is out1 = Inr out'" "length out' = length out1" by blast
  have "mono_loop input channels (i # is) outp = Inr out'"
    using sm(1) w rec(1) by (simp add: fr)
  with rec(2) l1 show ?case by simp
qed

lemma convertToMono_ok:
  assumes c: "0 < channels" and li: "length input = 2 * channels * q"
  shows "\<exists>out. convertToMono input channels = Inr out \<and> length out = 2 * q"
proof -
  from c have sc: "(of_nat (length input) :: rat) / (2 * of_nat channels) = of_nat q"
    by (simp add: li)
  have fr: "for_range (of_nat q) = [0..<q]" by (simp add: for_range_def)
  have al: "nat \<lfloor>(of_nat q :: rat) * 2\<rfloor> = 2 * q"
  proof -
    have "(of_nat q :: rat) * 2 = of_int (int (2 * q))" by simp
    then have "\<lfloor>(of_nat q :: rat) * 2\<rfloor> = int (2 * q)" by (simp only: floor_of_int)
    then show ?thesis by simp
  qed
  from mono_loop_ok [OF c li, of "Buffer_alloc (2 * q)" "[0..<q]"] obtain out where
    "mono_loop input channels [0..<q] (Buffer_alloc (2 * q)) = Inr out" "length out = 2 * q"
    by (auto simp: Buffer_alloc_def)
  moreover have "convertToMono input channels = mono_loop input channels [0..<q] (Buffer_alloc (2 * q))"
    unfolding convertToMono_def Let_def sc fr al ..
  ultimately show ?thesis by simp
qed



lemma processedData_ok:
  assumes ev: "even (length B)" and r: "0 < rate"
      and ch: "1 < channels \<longrightarrow>
                 channels dvd nat \<lfloor>(of_nat (length B div 2) :: rat) * 16000 / of_nat rate\<rfloor>"
  shows "\<exists>P. processedData B rate channels = Inr P \<and>
           length P = (if 1 < channels
                       then 2 * (nat \<lfloor>(of_nat (length B div 2) :: rat) * 16000 / of_nat rate\<rfloor> div channels)
                       else 2 * nat \<lfloor>(of_nat (length B div 2) :: rat) * 16000 / of_nat rate\<rfloor>)"
proof -
  let ?m = "length B div 2"
  let ?n = "nat \<lfloor>(of_nat ?m :: rat) * 16000 / of_nat rate\<rfloor>"
  from ev have lb: "length B = 2 * ?m" by simp
  have "\<exists>R. (if rate \<noteq> targetSampleRate then simpleResample B rate targetSampleRate else Inr B) = Inr R
          \<and> length R = 2 * ?n"
  proof (cases "rate = targetSampleRate")
    case True
    then have "?n = ?m" by (simp add: targetSampleRate_def)
    with True lb show ?thesis by simp
  next
    case False
    with simpleResample_even [OF r lb] show ?thesis by (simp add: targetSampleRate_def)
  qed
  then obtain R where R: "(if rate \<noteq> targetSampleRate then simpleResample B rate targetSampleRate else Inr B) = Inr R"
    and lR: "length R = 2 * ?n" by blast
  show ?thesis
  proof (cases "1 < channels")
    case True
    with ch obtain q where q: "?n = channels * q" by (auto simp: dvd_def)
    with lR have "length R = 2 * channels * q" by simp
    from convertToMono_ok [OF _ this] True obtain out where
      "convertToMono R channels = Inr out" "length out = 2 * q" by auto
    moreover from q True have "?n div channels = q" by simp
    ultimately show ?thesis using True R by (simp add: processedData_def)
  next
    case False
    with R lR show ?thesis by (simp add: processedData_def)
  qed
qed

text \<open>
  Where the block, resampled, is a whole number of channel groups, the push does what is
  asked of it. For every input block of even length, at any positive source rate, with
  one channel, or with \<open>c > 1\<close> channels when the number of resampled samples is a multiple
  of \<open>c\<close>: the call returns; with \<open>P\<close> the block resampled and mixed down it emits exactly
  \<open>floor((residual + |P|) / 640)\<close> frames, each of exactly 640 bytes; frames and new
  residual together are the old residual followed by \<open>P\<close>, in order; and the new residual
  is shorter than 640 bytes.
\<close>

lemma frames_and_residual:
  assumes "even (length B)" and "0 < rate"
      and "1 < channels \<longrightarrow>
             channels dvd nat \<lfloor>(of_nat (length B div 2) :: rat) * 16000 / of_nat rate\<rfloor>"
  shows "\<exists>P frames rest.
           processedData B rate channels = Inr P \<and>
           length P = (if 1 < channels
                       then 2 * (nat \<lfloor>(of_nat (length B div 2) :: rat) * 16000 / of_nat rate\<rfloor> div channels)
                       else 2 * nat \<lfloor>(of_nat (length B div 2) :: rat) * 16000 / of_nat rate\<rfloor>) \<and>
           processAudioData ap B rate channels = Inr (frames, ap\<lparr>buffer := rest\<rparr>) \<and>
           length frames = (length (buffer ap) + length P) div 640 \<and>
           (\<forall>f\<in>set frames. length f = 640) \<and>
           concat frames @ rest = buffer ap @ P \<and>
           length rest < 640"
proof -
  from processedData_ok [OF assms] obtain P where
    P: "processedData B rate channels = Inr P"
    "length P = (if 1 < channels
                       then 2 * (nat \<lfloor>(of_nat (length B div 2) :: rat) * 16000 / of_nat rate\<rfloor> div channels)
                       else 2 * nat \<lfloor>(of_nat (length B div 2) :: rat) * 16000 / of_nat rate\<rfloor>)"
    by blast
  from processAudioData_props [OF P(1), of ap] P show ?thesis by blast
qed

lemma convertToMono_six: "length input = 6 \<Longrightarrow> convertToMono input 2 = Inl RangeError"
proof -
  assume l: "length input = 6"
  have c: "\<lceil>(3::rat) / 2\<rceil> = 2" by (simp add: ceiling_eq_iff)
  have u: "[0..<2] = [0, 1]" by (simp add: numeral_2_eq_2)
  from l show ?thesis
    by (simp add: convertToMono_def Let_def for_range_def Buffer_alloc_def readInt16LE_def
        writeInt16LE_def c u split: sum.splits)
qed

text \<open>
  C5 fails on the code for a block of even length with two channels. Five stereo sample
  pairs at 48 kHz (20 bytes) pushed into a fresh normalizer: the claim asks for
  \<open>floor((0 + resampled) / 640) = 0\<close> frames and the resampled block kept as residual.
  The resampler, which rounds its sample count down, returns three samples (6 bytes);
  \<open>convertToMono\<close> does not round its count of one and a half pairs down, starts on the
  second pair and reads past the end of the six bytes: the call raises a \<open>RangeError\<close>,
  emits nothing and keeps nothing. The same block pushed with one channel returns no
  frame and keeps the six bytes.
\<close>

theorem C5_stereo_block_raises:
  "even (length (replicate 20 (0::byte))) \<and>
   (\<exists>out. simpleResample (replicate 20 0) 48000 16000 = Inr out \<and> length out = 6 \<and>
      convertToMono out 2 = Inl RangeError) \<and>
   processAudioData new_AudioProcessor (replicate 20 0) 48000 2 = Inl RangeError \<and>
   (\<exists>rest. processAudioData new_AudioProcessor (replicate 20 0) 48000 1 =
        Inr ([], new_AudioProcessor\<lparr>buffer := rest\<rparr>) \<and> length rest = 6)"
proof -
  have "length (replicate 20 (0::byte)) = 2 * 10" by simp
  from simpleResample_even [OF _ this, of 48000] obtain out where
    o: "simpleResample (replicate 20 0) 48000 16000 = Inr out"
    and "length out = 2 * nat \<lfloor>(of_nat 10 :: rat) * 16000 / of_nat 48000\<rfloor>" by auto
  moreover have "\<lfloor>(of_nat 10 :: rat) * 16000 / of_nat 48000\<rfloor> = 3" by (simp add: floor_eq_iff)
  ultimately have l: "length out = 6" by simp
  from convertToMono_six [OF l] o have
    2: "processAudioData new_AudioProcessor (replicate 20 0) 48000 2 = Inl RangeError"
    by (simp add: processAudioData_def processedData_def targetSampleRate_def)
  from o have "processedData (replicate 20 0) 48000 1 = Inr out"
    by (simp add: processedData_def targetSampleRate_def)
  from processAudioData_props [OF this, of new_AudioProcessor] l obtain frames rest where
    r: "processAudioData new_AudioProcessor (replicate 20 0) 48000 1 =
          Inr (frames, new_AudioProcessor\<lparr>buffer := rest\<rparr>)"
    "length frames = 0" "concat frames @ rest = out"
    by (auto simp: new_AudioProcessor_def Buffer_alloc_def)
  with l have 3: "\<exists>rest. processAudioData new_AudioProcessor (replicate 20 0) 48000 1 =
        Inr ([], new_AudioProcessor\<lparr>buffer := rest\<rparr>) \<and> length rest = 6" by auto
  from o l convertToMono_six [OF l] 2 3 show ?thesis by auto
qed





















end
